theory Spec2Isabelle
  imports Main "HOL-Library.Word"
begin

unbundle bit_operations_syntax

section \<open>Event PSOC firmware (main.c): data model\<close>

text \<open>
  The C types \<open>uint8\<close>, \<open>uint16\<close>, \<open>uint32\<close> are words of that width; \<open>int\<close> is the
  32-bit \<open>int\<close> of the ARM target, modelled as a mathematical integer wherever the values
  provably stay inside the 32-bit range. A C array is a list of the declared length; an
  access through an index outside the array is a \<open>fault\<close> of the model.
\<close>

type_synonym u8 = "8 word"
type_synonym u16 = "16 word"
type_synonym u32 = "32 word"

definition MXERR :: nat where "MXERR = 64"
definition TOFMAX_EVT :: nat where "TOFMAX_EVT = 64"
definition MAX_TKR_BOARDS :: nat where "MAX_TKR_BOARDS = 8"
definition MAX_TKR_BOARD_BYTES :: nat where "MAX_TKR_BOARD_BYTES = 203"
definition MAX_DATA_OUT :: nat where "MAX_DATA_OUT = 256"
definition TKRHOUSE_LEN :: nat where "TKRHOUSE_LEN = 70"
definition MAX_CMD_DATA :: nat where "MAX_CMD_DATA = 16"

definition ERR_CMD_IGNORE :: u8 where "ERR_CMD_IGNORE = 5"
definition ERR_TKR_READ_TIMEOUT :: u8 where "ERR_TKR_READ_TIMEOUT = 6"
definition ERR_TKR_BAD_ID :: u8 where "ERR_TKR_BAD_ID = 7"
definition ERR_TKR_BAD_LENGTH :: u8 where "ERR_TKR_BAD_LENGTH = 8"
definition ERR_TKR_BAD_ECHO :: u8 where "ERR_TKR_BAD_ECHO = 9"
definition ERR_GET_TKR_DATA :: u8 where "ERR_GET_TKR_DATA = 10"
definition ERR_TKR_BAD_FPGA :: u8 where "ERR_TKR_BAD_FPGA = 11"
definition ERR_TKR_BAD_TRAILER :: u8 where "ERR_TKR_BAD_TRAILER = 12"
definition ERR_TKR_BAD_NDATA :: u8 where "ERR_TKR_BAD_NDATA = 13"
definition ERR_TKR_NUM_BOARDS :: u8 where "ERR_TKR_NUM_BOARDS = 15"
definition ERR_TKR_BAD_BOARD_ID :: u8 where "ERR_TKR_BAD_BOARD_ID = 16"
definition ERR_TKR_BOARD_SHORT :: u8 where "ERR_TKR_BOARD_SHORT = 17"
definition ERR_TKR_NO_MEMORY :: u8 where "ERR_TKR_NO_MEMORY = 18"
definition ERR_BAD_CMD :: u8 where "ERR_BAD_CMD = 20"
definition ERR_EVT_TOO_BIG :: u8 where "ERR_EVT_TOO_BIG = 21"
definition ERR_BAD_BYTE :: u8 where "ERR_BAD_BYTE = 22"
definition ERR_TKR_TOO_BIG :: u8 where "ERR_TKR_TOO_BIG = 26"
definition ERR_TKR_LYR_ORDER :: u8 where "ERR_TKR_LYR_ORDER = 27"
definition ERR_TRK_WRONG_DATA_TYPE :: u8 where "ERR_TRK_WRONG_DATA_TYPE = 28"

definition TKR_EVT_DATA :: u8 where "TKR_EVT_DATA = 0xD3"
definition TKR_HOUSE_DATA :: u8 where "TKR_HOUSE_DATA = 0xC7"
definition TKR_ECHO_DATA :: u8 where "TKR_ECHO_DATA = 0xF1"
definition TKR_READ_TIMEOUT :: u32 where "TKR_READ_TIMEOUT = 31"

text \<open>An access outside a C array: the array's name and the index used.\<close>

datatype fault = OutOfRange string int

record Error =
  errorCode :: u8
  value0 :: u8
  value1 :: u8

text \<open>The TOF circular buffers \<open>tofA\<close>, \<open>tofB\<close>.\<close>

record TOF =
  shiftReg :: "u32 list"
  clkCnt :: "u16 list"
  filled :: "bool list"
  ptr :: u8

text \<open>\<open>hitList\<close> is a heap pointer: \<open>None\<close> is \<open>NULL\<close>, \<open>Some bs\<close> the allocated block.\<close>

record BoardHits =
  nBytes :: u8
  hitList :: "u8 list option"

text \<open>The global variables of main.c, and the locals of \<open>main\<close> that live across
  iterations of its endless loop. \<open>trgEnabled\<close> is bit 0 of the trigger control register
  (\<open>isTriggerEnabled\<close>); \<open>polls\<close> and \<open>mallocs\<close> count the reads made so far of the
  environment (UART/clock polls, heap allocations).\<close>

record daq =
  nErrors :: u8
  errors :: "Error list"
  nDataReady :: u8
  dataOut :: "u8 list"
  tkrCmdCount :: u16
  tkrCmdCode :: u8
  nTkrHouseKeeping :: u8
  tkrHouseKeepingFPGA :: u8
  tkrHouseKeeping :: "u8 list"
  triggerCount :: u16
  cmdCount :: u8
  trgPattern :: u8
  nTkrBoards :: u8
  boardHits :: "BoardHits list"
  numTkrBrds :: u8
  tofA :: TOF
  tofB :: TOF
  trgEnabled :: bool
  triggered :: bool
  cntGO :: u32
  cntGO1 :: u32
  command :: u8
  cmdData :: "u8 list"
  nDataBytes :: u8
  dCnt :: int
  awaitingCommand :: bool
  cmdDone :: bool
  polls :: nat
  mallocs :: nat

text \<open>Checked array accesses.\<close>

definition rd :: "string \<Rightarrow> 'a list \<Rightarrow> int \<Rightarrow> fault + 'a" where
  "rd name xs i = (if 0 \<le> i \<and> i < int (length xs) then Inr (xs ! nat i) else Inl (OutOfRange name i))"

definition wr :: "string \<Rightarrow> 'a list \<Rightarrow> int \<Rightarrow> 'a \<Rightarrow> fault + 'a list" where
  "wr name xs i v = (if 0 \<le> i \<and> i < int (length xs) then Inr (xs[nat i := v]) else Inl (OutOfRange name i))"

definition bindE :: "fault + 'a \<Rightarrow> ('a \<Rightarrow> fault + 'b) \<Rightarrow> fault + 'b" where
  "bindE m f = (case m of Inl e \<Rightarrow> Inl e | Inr x \<Rightarrow> f x)"

text \<open>A \<open>for\<close> loop over the given index values whose body may fault.\<close>

primrec forE :: "nat list \<Rightarrow> (nat \<Rightarrow> 's \<Rightarrow> fault + 's) \<Rightarrow> 's \<Rightarrow> fault + 's" where
  "forE [] body s = Inr s"
| "forE (i # is) body s = bindE (body i s) (forE is body)"

section \<open>Error log\<close>

text \<open>\<open>addError\<close> (main.c 302-309): the guard keeps the store inside \<open>errors[MXERR]\<close>;
  a full log drops the record.\<close>

definition addError :: "u8 \<Rightarrow> u8 \<Rightarrow> u8 \<Rightarrow> daq \<Rightarrow> daq" where
  "addError code val1 val2 s =
     (if unat (nErrors s) < MXERR
      then s\<lparr>errors := (errors s)[unat (nErrors s) := \<lparr>errorCode = code, value0 = val1, value1 = val2\<rparr>],
             nErrors := nErrors s + 1\<rparr>
      else s)"

text \<open>Command 0x03 (main.c 1902-1917): read back and clear the accumulated errors.\<close>

definition read_errors_body :: "nat \<Rightarrow> daq \<Rightarrow> fault + daq" where
  "read_errors_body i s =
     bindE (rd ''errors'' (errors s) (int i)) (\<lambda>er.
     bindE (wr ''dataOut'' (dataOut s) (int i * 3) (errorCode er)) (\<lambda>d0.
     bindE (wr ''dataOut'' d0 (int i * 3 + 1) (value0 er)) (\<lambda>d1.
     bindE (wr ''dataOut'' d1 (int i * 3 + 2) (value1 er)) (\<lambda>d2.
     Inr (s\<lparr>dataOut := d2\<rparr>)))))"

definition cmd_read_errors :: "daq \<Rightarrow> fault + daq" where
  "cmd_read_errors s =
     (if nErrors s = 0
      then Inr (s\<lparr>nDataReady := 3, dataOut := (dataOut s)[0 := 0x00, 1 := 0xEE, 2 := 0xFF]\<rparr>)
      else bindE (forE [0..<unat (nErrors s)] read_errors_body (s\<lparr>nDataReady := nErrors s * 3\<rparr>))
             (\<lambda>s'. Inr (s'\<lparr>nErrors := 0\<rparr>)))"


section \<open>TOF ring buffers and the correlation scan (main.c 1464-1519)\<close>

text \<open>\<open>int iptr = tofA.ptr - i - 1; if (iptr < 0) iptr = iptr + TOFMAX_EVT;\<close>
  The subtraction is done on \<open>int\<close> after promotion of the \<open>uint8\<close> cursor.\<close>

definition ring_back :: "u8 \<Rightarrow> nat \<Rightarrow> int" where
  "ring_back p i = (let iptr = uint p - int i - 1 in if iptr < 0 then iptr + int TOFMAX_EVT else iptr)"

text \<open>The channel-A pass (1468-1476). The local array \<open>idx\<close> is modelled by the list of
  its first \<open>nI\<close> entries, so \<open>nI\<close> is the length of the list. Both comparisons are made
  on \<open>int\<close>: \<open>tofA.clkCnt[iptr]+1\<close> does not wrap at 65535.\<close>

definition scanA_body :: "u16 \<Rightarrow> TOF \<Rightarrow> nat \<Rightarrow> u8 list \<Rightarrow> fault + u8 list" where
  "scanA_body timeStamp16 A i idx =
     (let iptr = ring_back (ptr A) i in
      bindE (rd ''tofA.filled'' (filled A) iptr) (\<lambda>f.
        if \<not> f then Inr idx
        else bindE (rd ''tofA.clkCnt'' (clkCnt A) iptr) (\<lambda>c.
          if uint timeStamp16 = uint c \<or> uint timeStamp16 = uint c + 1
          then Inr (idx @ [word_of_int iptr])
          else Inr idx)))"

definition scanA :: "u16 \<Rightarrow> TOF \<Rightarrow> fault + u8 list" where
  "scanA timeStamp16 A = forE [0..<TOFMAX_EVT] (scanA_body timeStamp16 A) []"

text \<open>Splitting a shift-register word (1489-1492, 1497-1500).\<close>

definition stop_of :: "u32 \<Rightarrow> u16" where
  "stop_of w = ucast (w AND 0x0000FFFF)"

definition ref_of :: "u32 \<Rightarrow> u16" where
  "ref_of w = ucast (drop_bit 16 (w AND 0xFFFF0000))"

definition full_time :: "u32 \<Rightarrow> int" where
  "full_time w = uint (ref_of w) * 8333 + uint (stop_of w)"

text \<open>The time difference of one pair, with the reference-clock rollover cases (1502-1509).\<close>

definition pair_dt :: "u32 \<Rightarrow> u32 \<Rightarrow> int" where
  "pair_dt AT BT =
     (let refA = ref_of AT; refB = ref_of BT; timei = full_time AT; timej = full_time BT in
      if uint refA > 49152 \<and> uint refB < 16384 then timej - (timei - 500000000)
      else if uint refB > 49152 \<and> uint refA < 16384 then (timej - 500000000) - timei
      else timej - timei)"

text \<open>The running minimum and its debugging companions. \<open>dtmin\<close> is the \<open>int16\<close> of the
  source: a 16-bit word read through \<open>sint\<close>; the assignment \<open>dtmin = dt\<close> truncates.\<close>

record corr =
  dtmin :: "16 word"
  aCLK :: u16
  bCLK :: u16
  aTOF :: u16
  bTOF :: u16
  nJ :: int

definition corr_init :: corr where
  "corr_init = \<lparr>dtmin = 32767, aCLK = 65535, bCLK = 65535, aTOF = 65535, bTOF = 65535, nJ = 0\<rparr>"

text \<open>Body of the loop over the channel-A hits (1494-1517), for the channel-B entry \<open>jptr\<close>.\<close>

definition corrA_body :: "TOF \<Rightarrow> TOF \<Rightarrow> u8 list \<Rightarrow> int \<Rightarrow> nat \<Rightarrow> corr \<Rightarrow> fault + corr" where
  "corrA_body A B idx jptr i c =
     bindE (rd ''idx'' idx (int i)) (\<lambda>ix.
     let iptr = uint ix in
     bindE (rd ''tofA.clkCnt'' (clkCnt A) iptr) (\<lambda>ca.
     bindE (rd ''tofB.clkCnt'' (clkCnt B) jptr) (\<lambda>cb.
     if \<bar>uint ca - uint cb\<bar> > 1 then Inr c
     else bindE (rd ''tofA.shiftReg'' (shiftReg A) iptr) (\<lambda>AT.
          bindE (rd ''tofB.shiftReg'' (shiftReg B) jptr) (\<lambda>BT.
          let dt = pair_dt AT BT in
          if \<bar>dt\<bar> < \<bar>sint (dtmin c)\<bar>
          then Inr (c\<lparr>dtmin := word_of_int dt, aCLK := ca, bCLK := cb,
                      aTOF := ref_of AT, bTOF := ref_of BT\<rparr>)
          else Inr c)))))"

text \<open>Body of the loop over channel B (1483-1518).\<close>

definition corrB_body :: "u16 \<Rightarrow> TOF \<Rightarrow> TOF \<Rightarrow> u8 list \<Rightarrow> nat \<Rightarrow> corr \<Rightarrow> fault + corr" where
  "corrB_body timeStamp16 A B idx j c =
     (let jptr = ring_back (ptr B) j in
      bindE (rd ''tofB.filled'' (filled B) jptr) (\<lambda>f.
        if \<not> f then Inr c
        else bindE (rd ''tofB.clkCnt'' (clkCnt B) jptr) (\<lambda>cb.
          if \<not> (uint cb = uint timeStamp16 \<or> uint cb = uint timeStamp16 - 1) then Inr c
          else forE [0..<length idx] (corrA_body A B idx jptr) (c\<lparr>nJ := nJ c + 1\<rparr>))))"

text \<open>The whole scan: the result is \<open>idx\<close> (so \<open>nI\<close>) and the minimum record.\<close>

definition correlate :: "u16 \<Rightarrow> TOF \<Rightarrow> TOF \<Rightarrow> fault + u8 list \<times> corr" where
  "correlate timeStamp16 A B =
     bindE (scanA timeStamp16 A) (\<lambda>idx.
     bindE (forE [0..<TOFMAX_EVT] (corrB_body timeStamp16 A B idx) corr_init) (\<lambda>c.
     Inr (idx, c)))"

text \<open>The invariant of a ring buffer kept by \<open>Store_A\<close>/\<open>Store_B\<close> (890-944) and by every
  reset of the cursor: arrays of \<open>TOFMAX_EVT\<close> entries, cursor below \<open>TOFMAX_EVT\<close>.\<close>

definition tof_ok :: "TOF \<Rightarrow> bool" where
  "tof_ok X \<longleftrightarrow> length (shiftReg X) = TOFMAX_EVT \<and> length (clkCnt X) = TOFMAX_EVT
     \<and> length (filled X) = TOFMAX_EVT \<and> unat (ptr X) < TOFMAX_EVT"

text \<open>One stop event stored by the interrupt routine (894-899).\<close>

definition tof_store :: "u32 \<Rightarrow> u16 \<Rightarrow> TOF \<Rightarrow> TOF" where
  "tof_store w clk X =
     (let X' = X\<lparr>shiftReg := (shiftReg X)[unat (ptr X) := w],
                 clkCnt := (clkCnt X)[unat (ptr X) := clk],
                 filled := (filled X)[unat (ptr X) := True],
                 ptr := ptr X + 1\<rparr>
      in if unat (ptr X') \<ge> TOFMAX_EVT then X'\<lparr>ptr := 0\<rparr> else X')"

definition tof_clear :: "TOF \<Rightarrow> TOF" where
  "tof_clear X = X\<lparr>filled := replicate TOFMAX_EVT False, ptr := 0\<rparr>"

definition tof_empty :: TOF where
  "tof_empty = \<lparr>shiftReg = replicate TOFMAX_EVT 0, clkCnt = replicate TOFMAX_EVT 0,
                filled = replicate TOFMAX_EVT False, ptr = 0\<rparr>"


text \<open>The entries the two passes keep, as predicates on a buffer position: filled, and
  with a clock tag \<open>c\<close> such that \<open>T = c\<close> or \<open>T = c + 1\<close> (channel A, line 1472),
  \<open>c = T\<close> or \<open>c = T - 1\<close> (channel B, line 1488), all on \<open>int\<close>.\<close>

definition selA :: "u16 \<Rightarrow> TOF \<Rightarrow> nat \<Rightarrow> bool" where
  "selA T A i \<longleftrightarrow> i < TOFMAX_EVT \<and> filled A ! i
     \<and> (uint T = uint (clkCnt A ! i) \<or> uint T = uint (clkCnt A ! i) + 1)"

definition selB :: "u16 \<Rightarrow> TOF \<Rightarrow> nat \<Rightarrow> bool" where
  "selB T B j \<longleftrightarrow> j < TOFMAX_EVT \<and> filled B ! j
     \<and> (uint (clkCnt B ! j) = uint T \<or> uint (clkCnt B ! j) = uint T - 1)"

text \<open>The pairs that reach the comparison at line 1510, and the difference formed there.\<close>

definition near :: "TOF \<Rightarrow> TOF \<Rightarrow> nat \<Rightarrow> nat \<Rightarrow> bool" where
  "near A B i j \<longleftrightarrow> \<bar>uint (clkCnt A ! i) - uint (clkCnt B ! j)\<bar> \<le> 1"

definition pairs :: "u16 \<Rightarrow> TOF \<Rightarrow> TOF \<Rightarrow> (nat \<times> nat) set" where
  "pairs T A B = {(i, j). selA T A i \<and> selB T B j \<and> near A B i j}"

definition dt_at :: "TOF \<Rightarrow> TOF \<Rightarrow> nat \<times> nat \<Rightarrow> int" where
  "dt_at A B p = pair_dt (shiftReg A ! fst p) (shiftReg B ! snd p)"

section \<open>Command frames: the three copies (main.c 1771-1807)\<close>

text \<open>The ASCII-to-nibble table built at 1069-1091.\<close>

definition code_table :: "u8 list" where
  "code_table = (replicate 256 0)
     [49 := 1, 50 := 2, 51 := 3, 52 := 4, 53 := 5, 54 := 6, 55 := 7, 56 := 8, 57 := 9,
      65 := 10, 97 := 10, 66 := 11, 98 := 11, 67 := 12, 99 := 12,
      68 := 13, 100 := 13, 69 := 14, 101 := 14, 70 := 15, 102 := 15]"

definition code :: "u8 \<Rightarrow> u8" where
  "code b = code_table ! unat b"

text \<open>Each of the four loops sets \<open>badCMD\<close> and leaves at the first index where the
  compared copies differ: \<open>find\<close> returns that index. \<open>buffer\<close> has \<open>BUFFER_LEN = 32\<close>
  bytes and is read at the constant offsets 0..26 only. The result is the final
  \<open>badCMD\<close>, the buffer and the state.\<close>

definition check_copies :: "u8 list \<Rightarrow> daq \<Rightarrow> bool \<times> u8 list \<times> daq" where
  "check_copies buffer s =
     (if find (\<lambda>i. buffer ! i \<noteq> buffer ! (i + 9) \<or> buffer ! i \<noteq> buffer ! (i + 18)) [0..<9] = None
      then (False, buffer, s)
      else if find (\<lambda>i. buffer ! i \<noteq> buffer ! (i + 9)) [0..<9] = None
      then (False, buffer, s)
      else if find (\<lambda>i. buffer ! i \<noteq> buffer ! (i + 18)) [0..<9] = None
      then (False, buffer, s)
      else (case find (\<lambda>i. buffer ! (i + 9) \<noteq> buffer ! (i + 18)) [0..<9] of
              Some i \<Rightarrow> (True, buffer, addError ERR_BAD_CMD (code (buffer ! (i + 9))) (of_nat i) s)
            | None \<Rightarrow> (False, fold (\<lambda>i b. b[i := b ! (i + 9)]) [0..<9] buffer, s)))"

text \<open>The three 9-byte copies of a received frame.\<close>

definition copy1 :: "u8 list \<Rightarrow> u8 list" where "copy1 buffer = take 9 buffer"
definition copy2 :: "u8 list \<Rightarrow> u8 list" where "copy2 buffer = take 9 (drop 9 buffer)"
definition copy3 :: "u8 list \<Rightarrow> u8 list" where "copy3 buffer = take 9 (drop 18 buffer)"

section \<open>Command handlers (main.c 1855-2551, those modelled)\<close>

text \<open>\<open>byte32\<close>, \<open>byte16\<close> (505-512), for the byte numbers the callers use.\<close>

definition byte32 :: "u32 \<Rightarrow> nat \<Rightarrow> u8" where
  "byte32 w byte = ucast (drop_bit ((3 - byte) * 8) (w AND [0xFF000000, 0x00FF0000, 0x0000FF00, 0x000000FF] ! byte))"

definition byte16 :: "u16 \<Rightarrow> nat \<Rightarrow> u8" where
  "byte16 w byte = ucast (drop_bit ((1 - byte) * 8) (w AND [0xFF00, 0x00FF] ! byte))"

text \<open>Command 0x35 (2216-2274): read the most recent TOF event of channel A
  (\<open>cmdData[0] = 0\<close>) or B. \<open>uint8 idx = tofA.ptr - 1\<close> is reduced modulo 256; the test
  \<open>idx < 0\<close> that follows is on an unsigned value, never true, and has no counterpart here.
  \<open>cmdData\<close> (16 bytes) and \<open>dataOut\<close> are accessed at constant offsets.\<close>

definition tof_report :: "u32 \<Rightarrow> u16 \<Rightarrow> u8 \<Rightarrow> u8 list \<Rightarrow> u8 list" where
  "tof_report w clk p d =
     (let stop = stop_of w; ref = ref_of w in
      d[0 := ucast (drop_bit 8 (ref AND 0xFF00)), 1 := ucast (ref AND 0x00FF), 2 := 0,
        3 := ucast (drop_bit 8 (stop AND 0xFF00)), 4 := ucast (stop AND 0x00FF), 5 := 0,
        6 := ucast (drop_bit 8 (clk AND 0xFF00)), 7 := ucast (clk AND 0x00FF), 8 := p])"

definition no_tof_report :: "u8 \<Rightarrow> u8 list \<Rightarrow> u8 list" where
  "no_tof_report idx d = d[0 := 0, 1 := 0, 2 := 0, 3 := 0, 4 := 0, 5 := 0, 6 := 0, 7 := 0, 8 := idx]"

definition cmd_read_tof :: "daq \<Rightarrow> fault + daq" where
  "cmd_read_tof s0 =
     (let s = s0\<lparr>nDataReady := 9\<rparr> in
      if cmdData s ! 0 = 0 then
        (let idx = ptr (tofA s) - 1 in
         bindE (rd ''tofA.filled'' (filled (tofA s)) (uint idx)) (\<lambda>f.
         if f then
           bindE (rd ''tofA.shiftReg'' (shiftReg (tofA s)) (uint idx)) (\<lambda>AT.
           bindE (rd ''tofA.clkCnt'' (clkCnt (tofA s)) (uint idx)) (\<lambda>clk.
           Inr (s\<lparr>dataOut := tof_report AT clk (ptr (tofA s)) (dataOut s),
                  tofA := tof_clear (tofA s)\<rparr>)))
         else Inr (s\<lparr>dataOut := no_tof_report idx (dataOut s)\<rparr>)))
      else
        (let idx = ptr (tofB s) - 1 in
         bindE (rd ''tofB.filled'' (filled (tofB s)) (uint idx)) (\<lambda>f.
         if f then
           bindE (rd ''tofB.shiftReg'' (shiftReg (tofB s)) (uint idx)) (\<lambda>BT.
           bindE (rd ''tofB.clkCnt'' (clkCnt (tofB s)) (uint idx)) (\<lambda>clk.
           Inr (s\<lparr>dataOut := tof_report BT clk (ptr (tofB s)) (dataOut s),
                  tofB := tof_clear (tofB s)\<rparr>)))
         else Inr (s\<lparr>dataOut := no_tof_report idx (dataOut s),
                     tofB := tof_clear (tofB s), tofA := tof_clear (tofA s)\<rparr>))))"

text \<open>Command 0x3B (2331-2337): enable or disable the trigger.\<close>

definition cmd_trigger_enable :: "daq \<Rightarrow> daq" where
  "cmd_trigger_enable s =
     (if cmdData s ! 0 = 1 then s\<lparr>trgEnabled := True\<rparr>
      else if cmdData s ! 0 = 0 then s\<lparr>trgEnabled := False\<rparr>
      else s)"

text \<open>Command 0x3D (2398-2402): return the trigger enable status.\<close>

definition cmd_trigger_status :: "daq \<Rightarrow> daq" where
  "cmd_trigger_status s =
     s\<lparr>nDataReady := 1, dataOut := (dataOut s)[0 := (if trgEnabled s then 1 else 0)]\<rparr>"

text \<open>Command 0x44 (2338-2350): end a run and send out the run summary.\<close>

definition cmd_end_run :: "daq \<Rightarrow> daq" where
  "cmd_end_run s =
     s\<lparr>triggered := False, trgEnabled := False,
       dataOut := (dataOut s)[0 := byte32 (cntGO1 s) 0, 1 := byte32 (cntGO1 s) 1,
                              2 := byte32 (cntGO1 s) 2, 3 := byte32 (cntGO1 s) 3,
                              4 := byte32 (cntGO s) 0, 5 := byte32 (cntGO s) 1,
                              6 := byte32 (cntGO s) 2, 7 := byte32 (cntGO s) 3],
       nDataReady := 8\<rparr>"

text \<open>The block executed for a completed command (1844-2554): the gate on the trigger
  state, then the \<open>switch\<close> on the command code. The cases modelled are 0x03, 0x35, 0x3B,
  0x3D and 0x44; \<open>other\<close> stands for the remaining cases, which drive peripherals.\<close>

definition run_command :: "(u8 \<Rightarrow> daq \<Rightarrow> fault + daq) \<Rightarrow> daq \<Rightarrow> fault + daq" where
  "run_command other s =
     (if command s = 0x3D \<or> command s = 0x44 \<or> \<not> trgEnabled s then
        (if command s = 0x03 then cmd_read_errors s
         else if command s = 0x35 then cmd_read_tof s
         else if command s = 0x3B then Inr (cmd_trigger_enable s)
         else if command s = 0x44 then Inr (cmd_end_run s)
         else if command s = 0x3D then Inr (cmd_trigger_status s)
         else other (command s) s)
      else Inr (addError ERR_CMD_IGNORE (command s) 0 s))"

text \<open>Decoding of an accepted frame and completion of a command (1808-1843), followed by
  the block above. The counters \<open>cmdCountGLB\<close>, \<open>cmdCount\<close> and \<open>cmdStartTime\<close> are not
  part of the state modelled.\<close>

definition eventPSOCaddress :: u8 where "eventPSOCaddress = 0x08"

definition byte_count :: "u8 \<Rightarrow> u8" where
  "byte_count addressByte = drop_bit 4 (addressByte AND 0xC0) OR (addressByte AND 0x03)"

definition process_frame :: "(u8 \<Rightarrow> daq \<Rightarrow> fault + daq) \<Rightarrow> bool \<Rightarrow> u8 list \<Rightarrow> daq \<Rightarrow> fault + daq" where
  "process_frame other badCMD0 buffer s0 =
     (if \<not> badCMD0 \<and> buffer ! 0 = 0x53 \<and> buffer ! 8 = 0x57 then
        (let nib3 = code (buffer ! 3); nib4 = code (buffer ! 4);
             addressByte = push_bit 4 nib3 OR nib4;
             PSOCaddress = drop_bit 2 (addressByte AND 0x3C);
             (badCMD, s1) =
               (if PSOCaddress = eventPSOCaddress then
                  (let nib1 = code (buffer ! 1); nib2 = code (buffer ! 2);
                       dataByte = push_bit 4 nib1 OR nib2
                   in if awaitingCommand s0 then
                        (let s = s0\<lparr>awaitingCommand := False, dCnt := 0,
                                      nDataBytes := byte_count addressByte, command := dataByte\<rparr>
                         in (badCMD0, if nDataBytes s = 0 then s\<lparr>cmdDone := True\<rparr> else s))
                      else
                        (let byteCnt = byte_count addressByte
                         in if byteCnt \<noteq> 0 then
                              (let s = s0\<lparr>cmdData := (cmdData s0)[unat byteCnt - 1 := dataByte],
                                           dCnt := dCnt s0 + 1\<rparr>
                               in (badCMD0, if dCnt s = uint (nDataBytes s) then s\<lparr>cmdDone := True\<rparr> else s))
                            else (True, addError ERR_BAD_BYTE (command s0) (nDataBytes s0) s0)))
                else (badCMD0, s0));
             s2 = (if cmdDone s1 \<and> badCMD
                   then s1\<lparr>cmdDone := False, awaitingCommand := True, nDataBytes := 0\<rparr> else s1)
         in if cmdDone s2 \<and> \<not> badCMD then run_command other s2 else Inr s2)
      else Inr s0)"

text \<open>One pass of the command input for a buffer holding a full frame
  (\<open>count == CMD_LENGTH\<close>, 1771-2556).\<close>

definition command_input :: "(u8 \<Rightarrow> daq \<Rightarrow> fault + daq) \<Rightarrow> u8 list \<Rightarrow> daq \<Rightarrow> fault + daq" where
  "command_input other buffer s =
     (case check_copies buffer s of (badCMD, buffer', s') \<Rightarrow> process_frame other badCMD buffer' s')"

section \<open>Tracker UART: reading with a time-out (main.c 544-556)\<close>

text \<open>The hardware seen by the main loop. Poll number \<open>p\<close> of the tracker UART finds the
  receive FIFO empty (\<open>rx e p = None\<close>) or holding a byte; \<open>clock e p\<close> is what \<open>time()\<close>
  returns when called at that poll; \<open>heap_ok e k\<close> tells whether the \<open>k\<close>-th call of
  \<open>malloc\<close> succeeds. The state counts the polls and allocations made so far.\<close>

record env =
  rx :: "nat \<Rightarrow> u8 option"
  clock :: "nat \<Rightarrow> u32"
  heap_ok :: "nat \<Rightarrow> bool"

text \<open>\<open>tkr_getByte\<close>: the \<open>while\<close> loop may not return, so the function is partial.\<close>

partial_function (option) tkr_getByte :: "env \<Rightarrow> u32 \<Rightarrow> u8 \<Rightarrow> daq \<Rightarrow> (u8 \<times> daq) option" where
  "tkr_getByte e startTime flag s =
     (case rx e (polls s) of
        Some b \<Rightarrow> Some (b, s\<lparr>polls := polls s + 1\<rparr>)
      | None \<Rightarrow>
          (let timeElapsed = clock e (polls s) - startTime in
           if timeElapsed > TKR_READ_TIMEOUT
           then Some (0x00, addError ERR_TKR_READ_TIMEOUT (ucast (timeElapsed AND 0x000000ff)) flag
                              (s\<lparr>polls := polls s + 1\<rparr>))
           else tkr_getByte e startTime flag (s\<lparr>polls := polls s + 1\<rparr>)))"

declare tkr_getByte.simps [code]

section \<open>Tracker packets: \<open>getTrackerData\<close> (main.c 602-793)\<close>

text \<open>Results of code that reads the UART: \<open>None\<close> when a read never returns, a fault for
  an access outside an array, or a value and the new state.\<close>

type_synonym 'a io = "(fault + 'a \<times> daq) option"

definition returnIO :: "'a \<Rightarrow> daq \<Rightarrow> 'a io" where
  "returnIO x s = Some (Inr (x, s))"

definition bindIO :: "'a io \<Rightarrow> ('a \<Rightarrow> daq \<Rightarrow> 'b io) \<Rightarrow> 'b io" where
  "bindIO m f = (case m of None \<Rightarrow> None | Some r \<Rightarrow> (case r of Inl x \<Rightarrow> Some (Inl x) | Inr xs \<Rightarrow> f (fst xs) (snd xs)))"

definition liftIO :: "fault + daq \<Rightarrow> 'a \<Rightarrow> 'a io" where
  "liftIO r x = (case r of Inl f \<Rightarrow> Some (Inl f) | Inr s \<Rightarrow> Some (Inr (x, s)))"

definition getByte :: "env \<Rightarrow> u32 \<Rightarrow> u8 \<Rightarrow> daq \<Rightarrow> u8 io" where
  "getByte e startTime flag s = map_option Inr (tkr_getByte e startTime flag s)"

text \<open>A \<open>for\<close> loop over the given index values, carrying the locals \<open>l\<close> the body assigns.\<close>

primrec forIO :: "nat list \<Rightarrow> (nat \<Rightarrow> 'l \<Rightarrow> daq \<Rightarrow> 'l io) \<Rightarrow> 'l \<Rightarrow> daq \<Rightarrow> 'l io" where
  "forIO [] body l s = Some (Inr (l, s))"
| "forIO (i # is) body l s = bindIO (body i l s) (forIO is body)"

text \<open>\<open>malloc(n)\<close>: \<open>NULL\<close> or a fresh block of \<open>n\<close> bytes (its content, undefined in C, is
  zero here; every byte read later has been written before).\<close>

definition malloc :: "env \<Rightarrow> nat \<Rightarrow> daq \<Rightarrow> u8 list option \<times> daq" where
  "malloc e n s = ((if heap_ok e (mallocs s) then Some (replicate n 0) else None), s\<lparr>mallocs := mallocs s + 1\<rparr>)"

definition set_board :: "nat \<Rightarrow> BoardHits \<Rightarrow> daq \<Rightarrow> fault + daq" where
  "set_board brd bh s = bindE (wr ''tkrData.boardHits'' (boardHits s) (int brd) bh) (\<lambda>bs. Inr (s\<lparr>boardHits := bs\<rparr>))"

text \<open>The default empty hit list of one board. The source repeats these lines for each
  failure, with the tag byte 0x01 to 0x06 telling them apart (617-625, 644-652, 667-675,
  684-692, 699-707, 1449-1457).\<close>

definition empty_hit_list :: "env \<Rightarrow> u8 \<Rightarrow> nat \<Rightarrow> daq \<Rightarrow> fault + daq" where
  "empty_hit_list e tag brd s =
     (case malloc e 5 s of (p, s1) \<Rightarrow>
        set_board brd \<lparr>nBytes = 5,
                       hitList = (case p of None \<Rightarrow> None
                                  | Some m \<Rightarrow> Some (m[0 := 0xE7, 1 := of_nat brd, 2 := 0, 3 := tag, 4 := 0x30]))\<rparr> s1)"

text \<open>The packet that "won't cause a crash down the road" (612-626, 639-653, 1444-1458).\<close>

definition default_event :: "env \<Rightarrow> u8 \<Rightarrow> daq \<Rightarrow> fault + daq" where
  "default_event e tag s =
     forE [0..<unat (numTkrBrds s)] (empty_hit_list e tag)
       (s\<lparr>triggerCount := 0, cmdCount := 0, trgPattern := 0, nTkrBoards := numTkrBrds s\<rparr>)"

text \<open>One board of an event packet (680-739); the local \<open>rc\<close> is carried along. The hit
  list is filled in a local copy and stored in \<open>boardHits[lyr]\<close> when complete.\<close>

definition hit_byte :: "env \<Rightarrow> u32 \<Rightarrow> nat \<Rightarrow> u8 list \<Rightarrow> daq \<Rightarrow> (u8 list) io" where
  "hit_byte e startTime i m s =
     bindIO (getByte e startTime 10 s) (\<lambda>theByte s1.
       if i < MAX_TKR_BOARD_BYTES
       then liftIO (bindE (wr ''hitList'' m (int i) theByte) (\<lambda>_. Inr s1)) (m[i := theByte])
       else returnIO m s1)"

definition board_body :: "env \<Rightarrow> u32 \<Rightarrow> nat \<Rightarrow> int \<Rightarrow> daq \<Rightarrow> int io" where
  "board_body e startTime brd rc s0 =
     bindIO (getByte e startTime 7 s0) (\<lambda>nBrdBytes s1.
     if nBrdBytes < 4
     then liftIO (empty_hit_list e 0x04 brd (addError ERR_TKR_BOARD_SHORT nBrdBytes (of_nat brd) s1)) 57
     else
     bindIO (getByte e startTime 8 s1) (\<lambda>IDbyte s2.
     if IDbyte \<noteq> 0xE7
     then liftIO (empty_hit_list e 0x05 brd (addError ERR_TKR_BAD_BOARD_ID IDbyte (of_nat brd) s2)) 58
     else
     bindIO (getByte e startTime 9 s2) (\<lambda>byte2 s3.
     let rc1 = (if byte2 > 8 then 59 else rc);
         s4 = (if byte2 > 8 then addError ERR_TKR_BAD_FPGA byte2 (of_nat brd) s3 else s3);
         lyr = 0x7 AND byte2;
         s5 = (if unat lyr \<noteq> brd then addError ERR_TKR_LYR_ORDER lyr (of_nat brd) s4 else s4);
         nb = (if unat nBrdBytes > MAX_TKR_BOARD_BYTES then of_nat MAX_TKR_BOARD_BYTES else nBrdBytes);
         s6 = (if unat nBrdBytes > MAX_TKR_BOARD_BYTES then addError ERR_TKR_TOO_BIG nBrdBytes lyr s5 else s5)
     in case malloc e (unat nBrdBytes) s6 of
          (None, s7) \<Rightarrow>
            liftIO (set_board (unat lyr) \<lparr>nBytes = nb, hitList = None\<rparr>
                      (addError ERR_TKR_NO_MEMORY (nBrdBytes - 2) (of_nat brd) s7)) 60
        | (Some m, s7) \<Rightarrow>
            bindIO (forIO [2..<unat nBrdBytes] (hit_byte e startTime) (m[0 := IDbyte, 1 := byte2]) s7) (\<lambda>m' s8.
            liftIO (set_board (unat lyr) \<lparr>nBytes = nb, hitList = Some m'\<rparr> s8) rc1))))"

text \<open>Event data (636-739).\<close>

definition tkr_event :: "env \<Rightarrow> u32 \<Rightarrow> u8 \<Rightarrow> u8 \<Rightarrow> daq \<Rightarrow> int io" where
  "tkr_event e startTime len IDcode s =
     (if len \<noteq> 5
      then liftIO (default_event e 0x02 (addError ERR_TKR_BAD_LENGTH IDcode len s)) 55
      else
      bindIO (getByte e startTime 3 s) (\<lambda>b3 s1.
      bindIO (getByte e startTime 4 (s1\<lparr>triggerCount := push_bit 8 (ucast b3 AND 0x00FF)\<rparr>)) (\<lambda>b4 s2.
      bindIO (getByte e startTime 5 (s2\<lparr>triggerCount := triggerCount s2 OR (ucast b4 AND 0x00FF)\<rparr>)) (\<lambda>b5 s3.
      bindIO (getByte e startTime 6 (s3\<lparr>cmdCount := b5\<rparr>)) (\<lambda>b6 s4.
      let s5 = s4\<lparr>trgPattern := b6 AND 0xC0\<rparr>;
          nBoards = b6 AND 0x3F
      in if nBoards \<noteq> numTkrBrds s5
         then liftIO (forE [0..<unat (numTkrBrds s5)] (empty_hit_list e 0x03)
                        ((addError ERR_TKR_NUM_BOARDS nBoards (trgPattern s5) s5)\<lparr>nTkrBoards := numTkrBrds s5\<rparr>)) 56
         else forIO [0..<unat nBoards] (board_body e startTime) 0 (s5\<lparr>nTkrBoards := nBoards\<rparr>))))))"

text \<open>Housekeeping data (740-766).\<close>

definition house_byte :: "env \<Rightarrow> u32 \<Rightarrow> nat \<Rightarrow> unit \<Rightarrow> daq \<Rightarrow> unit io" where
  "house_byte e startTime i u s =
     bindIO (getByte e startTime 16 s) (\<lambda>tmpData s1.
       if i < TKRHOUSE_LEN
       then liftIO (bindE (wr ''tkrHouseKeeping'' (tkrHouseKeeping s1) (int i) tmpData) (\<lambda>h.
                      Inr (s1\<lparr>tkrHouseKeeping := h, nTkrHouseKeeping := nTkrHouseKeeping s1 + 1\<rparr>))) ()
       else returnIO () s1)"

definition tkr_house :: "env \<Rightarrow> u32 \<Rightarrow> u8 \<Rightarrow> daq \<Rightarrow> int io" where
  "tkr_house e startTime len s =
     bindIO (getByte e startTime 11 s) (\<lambda>nData0 s1.
     let bad = (uint len \<noteq> uint nData0 + 6);
         nData = (if bad then len - 6 else nData0);
         s1a = (if bad then addError ERR_TKR_BAD_NDATA len nData0 s1 else s1)
     in
     bindIO (getByte e startTime 12 s1a) (\<lambda>b12 s2.
     bindIO (getByte e startTime 13 (s2\<lparr>tkrCmdCount := push_bit 8 (ucast b12)\<rparr>)) (\<lambda>b13 s3.
     bindIO (getByte e startTime 14 (s3\<lparr>tkrCmdCount := (tkrCmdCount s3 AND 0xFF00) OR ucast b13\<rparr>)) (\<lambda>b14 s4.
     let s4a = s4\<lparr>tkrHouseKeepingFPGA := b14\<rparr>;
         s4b = (if b14 > 8 then addError ERR_TKR_BAD_FPGA (tkrCmdCode s4a) b14 s4a else s4a)
     in
     bindIO (getByte e startTime 15 s4b) (\<lambda>tkrHouseKeepingCMD s5.
     let s5a = (if tkrHouseKeepingCMD \<noteq> tkrCmdCode s5
                then addError ERR_TKR_BAD_ECHO tkrHouseKeepingCMD (tkrCmdCode s5) s5 else s5)
     in
     bindIO (forIO [0..<unat nData] (house_byte e startTime) () (s5a\<lparr>nTkrHouseKeeping := 0\<rparr>)) (\<lambda>u s6.
     liftIO (bindE (rd ''tkrHouseKeeping'' (tkrHouseKeeping s6) (uint (nTkrHouseKeeping s6) - 1)) (\<lambda>last.
               Inr (if last \<noteq> 0x0F then addError ERR_TKR_BAD_TRAILER (tkrCmdCode s6) last s6 else s6))) 0))))))"

text \<open>Command echo (767-781).\<close>

definition tkr_echo :: "env \<Rightarrow> u32 \<Rightarrow> u8 \<Rightarrow> u8 \<Rightarrow> daq \<Rightarrow> int io" where
  "tkr_echo e startTime len IDcode s =
     (let s0 = (if len \<noteq> 4 then addError ERR_TKR_BAD_LENGTH IDcode len s else s)\<lparr>nDataReady := 3\<rparr> in
      bindIO (getByte e startTime 17 s0) (\<lambda>b17 s1.
      bindIO (getByte e startTime 18
                (s1\<lparr>dataOut := (dataOut s1)[0 := b17], tkrCmdCount := push_bit 8 (ucast b17)\<rparr>)) (\<lambda>b18 s2.
      bindIO (getByte e startTime 19
                (s2\<lparr>dataOut := (dataOut s2)[1 := b18],
                    tkrCmdCount := (tkrCmdCount s2 AND 0xFF00) OR ucast b18\<rparr>)) (\<lambda>tkrCmdCodeEcho s3.
      let s4 = s3\<lparr>dataOut := (dataOut s3)[2 := tkrCmdCodeEcho]\<rparr>
      in if tkrCmdCode s4 \<noteq> tkrCmdCodeEcho
         then returnIO 1 (addError ERR_TKR_BAD_ECHO tkrCmdCodeEcho (tkrCmdCode s4) s4)
         else returnIO 0 s4))))"

text \<open>Any other identifier (782-791). The clamp \<open>if (len > 15) len = 15\<close> is a dead store:
  the loop runs to \<open>nDataReady\<close>.\<close>

definition unknown_byte :: "env \<Rightarrow> u32 \<Rightarrow> nat \<Rightarrow> unit \<Rightarrow> daq \<Rightarrow> unit io" where
  "unknown_byte e startTime i u s =
     bindIO (getByte e startTime (of_nat (20 + i)) s) (\<lambda>b s1.
       liftIO (bindE (wr ''dataOut'' (dataOut s1) (int i) b) (\<lambda>d. Inr (s1\<lparr>dataOut := d\<rparr>))) ())"

definition tkr_unknown :: "env \<Rightarrow> u32 \<Rightarrow> u8 \<Rightarrow> u8 \<Rightarrow> daq \<Rightarrow> int io" where
  "tkr_unknown e startTime len IDcode s =
     (let s0 = (if unat (nErrors s) < MXERR then addError ERR_TKR_BAD_ID IDcode len s else s)\<lparr>nDataReady := len\<rparr> in
      bindIO (forIO [0..<unat (nDataReady s0)] (unknown_byte e startTime) () s0) (\<lambda>u s1. returnIO 0 s1))"

definition tkr_packet :: "env \<Rightarrow> u32 \<Rightarrow> u8 \<Rightarrow> u8 \<Rightarrow> daq \<Rightarrow> int io" where
  "tkr_packet e startTime len IDcode s =
     (if IDcode = TKR_EVT_DATA then tkr_event e startTime len IDcode s
      else if IDcode = TKR_HOUSE_DATA then tkr_house e startTime len s
      else if IDcode = TKR_ECHO_DATA then tkr_echo e startTime len IDcode s
      else tkr_unknown e startTime len IDcode s)"

definition getTrackerData :: "env \<Rightarrow> u8 \<Rightarrow> daq \<Rightarrow> int io" where
  "getTrackerData e idExpected s0 =
     (let startTime = clock e (polls s0); s1 = s0\<lparr>polls := polls s0 + 1\<rparr> in
      bindIO (getByte e startTime 1 s1) (\<lambda>len s2.
      bindIO (getByte e startTime 2 s2) (\<lambda>IDcode s3.
        if IDcode \<noteq> idExpected then
          (if idExpected \<noteq> 0 then
             (let s4 = addError ERR_TRK_WRONG_DATA_TYPE IDcode idExpected s3 in
              if idExpected = TKR_EVT_DATA then liftIO (default_event e 0x01 s4) 54
              else tkr_packet e startTime len IDcode s4)
           else
             (if IDcode = TKR_EVT_DATA
              then returnIO 53 (addError ERR_TRK_WRONG_DATA_TYPE IDcode idExpected s3)
              else tkr_packet e startTime len IDcode s3))
        else tkr_packet e startTime len IDcode s3)))"

section \<open>Event serialisation (main.c 1521-1615)\<close>

text \<open>The values that go into the event header besides those of the state: run number,
  saved time stamp, packed date and time, trigger status and the six ADC samples.\<close>

record evt_hdr =
  runNumber :: u16
  timeStampSave :: u32
  timeWord :: u32
  trgStatus :: u8
  T1mV :: u16
  T2mV :: u16
  T3mV :: u16
  T4mV :: u16
  GmV :: u16
  extra :: u16

text \<open>\<open>dataOut[0]\<close> to \<open>dataOut[51]\<close> (1531-1587). \<open>nI\<close> and \<open>nJ\<close> are \<open>int\<close>s stored into
  bytes; \<open>dtmin\<close> is passed to \<open>byte16\<close> as the 16-bit pattern it is.\<close>

definition event_header :: "evt_hdr \<Rightarrow> nat \<Rightarrow> corr \<Rightarrow> daq \<Rightarrow> u8 list" where
  "event_header h nI c s =
     [0x5A, 0x45, 0x52, 0x4F,
      byte16 (runNumber h) 0, byte16 (runNumber h) 1,
      byte32 (cntGO s) 0, byte32 (cntGO s) 1, byte32 (cntGO s) 2, byte32 (cntGO s) 3,
      byte32 (timeStampSave h) 0, byte32 (timeStampSave h) 1, byte32 (timeStampSave h) 2, byte32 (timeStampSave h) 3,
      byte32 (cntGO1 s) 0, byte32 (cntGO1 s) 1, byte32 (cntGO1 s) 2, byte32 (cntGO1 s) 3,
      byte32 (timeWord h) 0, byte32 (timeWord h) 1, byte32 (timeWord h) 2, byte32 (timeWord h) 3,
      trgStatus h,
      byte16 (T1mV h) 0, byte16 (T1mV h) 1, byte16 (T2mV h) 0, byte16 (T2mV h) 1,
      byte16 (T3mV h) 0, byte16 (T3mV h) 1, byte16 (T4mV h) 0, byte16 (T4mV h) 1,
      byte16 (GmV h) 0, byte16 (GmV h) 1, byte16 (extra h) 0, byte16 (extra h) 1,
      byte16 (dtmin c) 0, byte16 (dtmin c) 1,
      byte16 (triggerCount s) 0, byte16 (triggerCount s) 1,
      cmdCount s, trgPattern s,
      of_nat nI, word_of_int (nJ c),
      byte16 (aTOF c) 0, byte16 (aTOF c) 1, byte16 (bTOF c) 0, byte16 (bTOF c) 1,
      byte16 (aCLK c) 0, byte16 (aCLK c) 1, byte16 (bCLK c) 0, byte16 (bCLK c) 1,
      nTkrBoards s]"

text \<open>\<open>dataOut[nDataReady++] = v\<close>: the index is the \<open>uint8\<close> \<open>nDataReady\<close>, which is then
  incremented modulo 256.\<close>

definition put :: "u8 \<Rightarrow> daq \<Rightarrow> fault + daq" where
  "put v s = bindE (wr ''dataOut'' (dataOut s) (uint (nDataReady s)) v) (\<lambda>d.
               Inr (s\<lparr>dataOut := d, nDataReady := nDataReady s + 1\<rparr>))"

primrec putAll :: "u8 list \<Rightarrow> daq \<Rightarrow> fault + daq" where
  "putAll [] s = Inr s"
| "putAll (v # vs) s = bindE (put v s) (putAll vs)"

text \<open>A \<open>for\<close> loop whose body may \<open>break\<close>: the body returns whether it did.\<close>

primrec forB :: "nat list \<Rightarrow> (nat \<Rightarrow> 's \<Rightarrow> fault + bool \<times> 's) \<Rightarrow> 's \<Rightarrow> fault + 's" where
  "forB [] body s = Inr s"
| "forB (i # is) body s = bindE (body i s) (\<lambda>r. if fst r then Inr (snd r) else forB is body (snd r))"

text \<open>One board (1590-1609). After \<open>free\<close> the pointer keeps its value; the model does not
  track deallocation and leaves \<open>hitList\<close> as it is.\<close>

definition hit_out :: "u8 list \<Rightarrow> nat \<Rightarrow> daq \<Rightarrow> fault + daq" where
  "hit_out hl b s = bindE (rd ''hitList'' hl (int b)) (\<lambda>v. put v s)"

definition board_out :: "nat \<Rightarrow> daq \<Rightarrow> fault + bool \<times> daq" where
  "board_out brd s =
     bindE (rd ''tkrData.boardHits'' (boardHits s) (int brd)) (\<lambda>bh.
     if uint (nDataReady s) > int MAX_DATA_OUT - (5 + uint (nBytes bh))
     then Inr (True, addError ERR_EVT_TOO_BIG (dataOut s ! 6) (dataOut s ! 10) s)
     else bindE (put (of_nat brd) s) (\<lambda>s1.
          (case hitList bh of
             None \<Rightarrow> bindE (putAll [5, 0xE7, of_nat brd, 0, 0x07, 0x30] s1) (\<lambda>s2. Inr (False, s2))
           | Some hl \<Rightarrow>
               bindE (put (nBytes bh) s1) (\<lambda>s2.
               bindE (forE [0..<unat (nBytes bh)] (hit_out hl) s2) (\<lambda>s3.
               bindE (set_board brd (bh\<lparr>nBytes := 0\<rparr>) s3) (\<lambda>s4. Inr (False, s4)))))))"

definition build_event :: "evt_hdr \<Rightarrow> nat \<Rightarrow> corr \<Rightarrow> daq \<Rightarrow> fault + daq" where
  "build_event h nI c s0 =
     (let s1 = s0\<lparr>dataOut := event_header h nI c s0 @ drop 52 (dataOut s0), nDataReady := 52\<rparr> in
      bindE (forB [0..<unat (nTkrBoards s1)] board_out s1) (\<lambda>s2.
      putAll [0x46, 0x49, 0x4E, 0x49] s2))"

text \<open>What the serialiser needs of the tracker data: at most \<open>MAX_TKR_BOARDS\<close> boards,
  each hit list of at most \<open>MAX_TKR_BOARD_BYTES\<close> bytes and, unless \<open>NULL\<close>, allocated
  with at least \<open>nBytes\<close> bytes (as \<open>getTrackerData\<close> leaves them).\<close>

definition board_ok :: "BoardHits \<Rightarrow> bool" where
  "board_ok bh \<longleftrightarrow> unat (nBytes bh) \<le> MAX_TKR_BOARD_BYTES
     \<and> (case hitList bh of None \<Rightarrow> True | Some hl \<Rightarrow> unat (nBytes bh) \<le> length hl)"

definition tkr_ok :: "daq \<Rightarrow> bool" where
  "tkr_ok s \<longleftrightarrow> length (dataOut s) = MAX_DATA_OUT \<and> length (boardHits s) = MAX_TKR_BOARDS
     \<and> unat (nTkrBoards s) \<le> MAX_TKR_BOARDS \<and> list_all board_ok (take (unat (nTkrBoards s)) (boardHits s))"

text \<open>Auxiliary definitions for the proofs: the loop bodies of the scan as total functions
  (equal to the checked ones on well-formed buffers), and the invariant of the running
  minimum over the set \<open>S\<close> of differences compared so far.\<close>

definition upd :: "int \<Rightarrow> u16 \<Rightarrow> u16 \<Rightarrow> u16 \<Rightarrow> u16 \<Rightarrow> corr \<Rightarrow> corr" where
  "upd dt ca cb ra rb c = (if \<bar>dt\<bar> < \<bar>sint (dtmin c)\<bar>
     then c\<lparr>dtmin := word_of_int dt, aCLK := ca, bCLK := cb, aTOF := ra, bTOF := rb\<rparr> else c)"

definition hA :: "TOF \<Rightarrow> TOF \<Rightarrow> nat \<Rightarrow> nat \<Rightarrow> corr \<Rightarrow> corr" where
  "hA A B j i c = (if near A B i j
     then upd (dt_at A B (i, j)) (clkCnt A ! i) (clkCnt B ! j) (ref_of (shiftReg A ! i)) (ref_of (shiftReg B ! j)) c
     else c)"

definition hB :: "u16 \<Rightarrow> TOF \<Rightarrow> TOF \<Rightarrow> nat list \<Rightarrow> nat \<Rightarrow> corr \<Rightarrow> corr" where
  "hB T A B ias j c = (if selB T B j then fold (hA A B j) ias (c\<lparr>nJ := nJ c + 1\<rparr>) else c)"

definition min_inv :: "int set \<Rightarrow> corr \<Rightarrow> bool" where
  "min_inv S c \<longleftrightarrow> (sint (dtmin c) = 32767 \<or> (sint (dtmin c) \<in> S \<and> \<bar>sint (dtmin c)\<bar> < 32767))
     \<and> (\<forall>d\<in>S. \<bar>sint (dtmin c)\<bar> \<le> \<bar>d\<bar>)"

text \<open>Concrete buffers: one stop event per channel, stored at position 0.\<close>

definition cxA :: TOF where
  "cxA = tof_store 0 1000 tof_empty"

definition cxB :: TOF where
  "cxB = tof_store 0x00040000 1000 tof_empty"

definition cxA_next :: TOF where
  "cxA_next = tof_store 0 1001 tof_empty"

definition exA :: TOF where
  "exA = tof_store 0x00020005 1000 (tof_store 0x00010000 999 tof_empty)"

definition exB :: TOF where
  "exB = tof_store 0x00020105 1000 tof_empty"

text \<open>The state left by the initialisation at the top of \<open>main\<close> (1049-1066, 1352-1360):
  statics are zero, the log is empty, one tracker board is configured, the trigger is off.\<close>

definition s_init :: daq where
  "s_init = \<lparr>nErrors = 0,
     errors = replicate MXERR \<lparr>errorCode = 0, value0 = 0, value1 = 0\<rparr>,
     nDataReady = 0, dataOut = replicate MAX_DATA_OUT 0,
     tkrCmdCount = 0, tkrCmdCode = 0, nTkrHouseKeeping = 0, tkrHouseKeepingFPGA = 0,
     tkrHouseKeeping = replicate TKRHOUSE_LEN 0,
     triggerCount = 0, cmdCount = 0, trgPattern = 0, nTkrBoards = 0,
     boardHits = replicate MAX_TKR_BOARDS \<lparr>nBytes = 0, hitList = None\<rparr>,
     numTkrBrds = 1, tofA = tof_empty, tofB = tof_empty,
     trgEnabled = False, triggered = False, cntGO = 0, cntGO1 = 0,
     command = 0, cmdData = replicate MAX_CMD_DATA 0, nDataBytes = 0, dCnt = 0,
     awaitingCommand = True, cmdDone = False, polls = 0, mallocs = 0\<rparr>"

text \<open>A log holding two records.\<close>

definition s_two_errors :: daq where
  "s_two_errors = addError ERR_TKR_BAD_ECHO 0x22 0x57 (addError ERR_CMD_IGNORE 0x3B 0 s_init)"

text \<open>Concrete frames: \<open>S0320 xyW\<close> (command 0x03, no data), \<open>S3521 xyW\<close> and
  \<open>S3B21 xyW\<close> (commands 0x35 and 0x3B, each announcing one data byte), \<open>S0021 xyW\<close>
  (data byte number 1, value 0) and \<open>S3D20 xyW\<close> (command 0x3D, no data); buffers of
  32 bytes holding three copies followed by CR LF.\<close>

definition frame_03 :: "u8 list" where
  "frame_03 = [0x53, 0x30, 0x33, 0x32, 0x30, 0x20, 0x78, 0x79, 0x57]"

definition frame_35 :: "u8 list" where
  "frame_35 = [0x53, 0x33, 0x35, 0x32, 0x31, 0x20, 0x78, 0x79, 0x57]"

definition frame_3B :: "u8 list" where
  "frame_3B = [0x53, 0x33, 0x42, 0x32, 0x31, 0x20, 0x78, 0x79, 0x57]"

definition frame_data0 :: "u8 list" where
  "frame_data0 = [0x53, 0x30, 0x30, 0x32, 0x31, 0x20, 0x78, 0x79, 0x57]"

definition frame_3D :: "u8 list" where
  "frame_3D = [0x53, 0x33, 0x44, 0x32, 0x30, 0x20, 0x78, 0x79, 0x57]"

definition in_buffer :: "u8 list \<Rightarrow> u8 list \<Rightarrow> u8 list \<Rightarrow> u8 list" where
  "in_buffer c1 c2 c3 = c1 @ c2 @ c3 @ [0x0D, 0x0A, 0, 0, 0]"

definition buf_two_agree :: "u8 list" where
  "buf_two_agree = in_buffer frame_03 frame_03 frame_35"

definition buf_all_differ :: "u8 list" where
  "buf_all_differ = in_buffer frame_03 frame_35 frame_3B"

text \<open>The state with the trigger enabled and no command in progress.\<close>

definition s_armed :: daq where
  "s_armed = s_init\<lparr>trgEnabled := True\<rparr>"

text \<open>Auxiliary definitions for \<open>tkr_getByte\<close>: the loop leaves at the first poll that finds
  a byte or an expired time-out, with the result given by \<open>result_at\<close>; \<open>keeps\<close> lists
  what a read leaves unchanged.\<close>

definition exit_at :: "env \<Rightarrow> u32 \<Rightarrow> nat \<Rightarrow> bool" where
  "exit_at e startTime p \<longleftrightarrow> rx e p \<noteq> None \<or> TKR_READ_TIMEOUT < clock e p - startTime"

definition result_at :: "env \<Rightarrow> u32 \<Rightarrow> u8 \<Rightarrow> daq \<Rightarrow> nat \<Rightarrow> u8 \<times> daq" where
  "result_at e startTime flag s p =
     (case rx e p of
        Some b \<Rightarrow> (b, s\<lparr>polls := p + 1\<rparr>)
      | None \<Rightarrow> (0x00, addError ERR_TKR_READ_TIMEOUT (ucast ((clock e p - startTime) AND 0x000000ff)) flag
                        (s\<lparr>polls := p + 1\<rparr>)))"

definition keeps :: "daq \<Rightarrow> daq \<Rightarrow> bool" where
  "keeps s s' \<longleftrightarrow> numTkrBrds s' = numTkrBrds s \<and> boardHits s' = boardHits s
     \<and> mallocs s' = mallocs s \<and> length (errors s') = length (errors s)"

text \<open>Environments: a silent UART with a clock that advances one tick per poll; a UART
  that delivers the header of an event packet with declared length 7.\<close>

definition e_silent :: env where
  "e_silent = \<lparr>rx = (\<lambda>p. None), clock = (\<lambda>p. of_nat p), heap_ok = (\<lambda>k. True)\<rparr>"

definition e_badlen :: env where
  "e_badlen = \<lparr>rx = (\<lambda>p. if p = 3 then Some 7 else if p = 4 then Some 0xD3 else None),
               clock = (\<lambda>p. of_nat p), heap_ok = (\<lambda>k. True)\<rparr>"

text \<open>An event of one board with a hit list of 199 bytes, and an empty header record.\<close>

definition hdr0 :: evt_hdr where
  "hdr0 = \<lparr>runNumber = 0, timeStampSave = 0, timeWord = 0, trgStatus = 0,
           T1mV = 0, T2mV = 0, T3mV = 0, T4mV = 0, GmV = 0, extra = 0\<rparr>"

definition s_big :: daq where
  "s_big = s_init\<lparr>nTkrBoards := 1,
     boardHits := (boardHits s_init)[0 := \<lparr>nBytes = 199, hitList = Some (replicate 199 0xAA)\<rparr>]\<rparr>"

text \<open>Auxiliary: what a write to the output buffer leaves unchanged.\<close>

definition out_step :: "daq \<Rightarrow> daq \<Rightarrow> bool" where
  "out_step s s' \<longleftrightarrow> length (dataOut s') = length (dataOut s) \<and> boardHits s' = boardHits s"

text \<open>A full error log: the state after 64 calls of \<open>addError(ERR_CMD_IGNORE, 1, 0)\<close>
  (lemma \<open>s_full_reachable\<close>).\<close>

definition s_full :: daq where
  "s_full = s_init\<lparr>nErrors := 64,
     errors := replicate MXERR \<lparr>errorCode = ERR_CMD_IGNORE, value0 = 0x01, value1 = 0\<rparr>\<rparr>"

text \<open>Nine tracker boards configured, one more than \<open>boardHits\<close> holds: the state after
  command 0x10 has passed on the tracker command 0x0F with data byte 9 (main.c 1972-1974).\<close>

definition s_nine :: daq where
  "s_nine = s_init\<lparr>numTkrBrds := 9\<rparr>"

text \<open>A silent UART with a clock that stands still.\<close>

definition e_stuck :: env where
  "e_stuck = \<lparr>rx = (\<lambda>p. None), clock = (\<lambda>p. 0), heap_ok = (\<lambda>k. True)\<rparr>"

section \<open>Properties of the error log\<close>

lemma bindE_simps [simp]: "bindE (Inl e) f = Inl e" "bindE (Inr x) f = f x"
  by (simp_all add: bindE_def)

lemma forE_append: "forE (xs @ ys) body s = bindE (forE xs body s) (forE ys body)"
  by (induction xs arbitrary: s) (auto simp: bindE_def split: sum.splits)

lemma read_errors_loop:
  assumes "n \<le> 64" "length (errors s) = 64" "length (dataOut s) = 256"
  shows "\<exists>d. forE [0..<n] read_errors_body s = Inr (s\<lparr>dataOut := d\<rparr>) \<and> length d = 256 \<and>
     (\<forall>i<n. d ! (3 * i) = errorCode (errors s ! i) \<and> d ! (3 * i + 1) = value0 (errors s ! i)
          \<and> d ! (3 * i + 2) = value1 (errors s ! i)) \<and> (\<forall>j. 3 * n \<le> j \<longrightarrow> d ! j = dataOut s ! j)"
  using assms
proof (induction n)
  case 0
  then show ?case by (intro exI[of _ "dataOut s"]) simp
next
  case (Suc n)
  then obtain d where d: "forE [0..<n] read_errors_body s = Inr (s\<lparr>dataOut := d\<rparr>)" "length d = 256"
    "\<forall>i<n. d ! (3 * i) = errorCode (errors s ! i) \<and> d ! (3 * i + 1) = value0 (errors s ! i)
          \<and> d ! (3 * i + 2) = value1 (errors s ! i)" "\<forall>j. 3 * n \<le> j \<longrightarrow> d ! j = dataOut s ! j"
    by auto
  let ?er = "errors s ! n"
  let ?d' = "d[3 * n := errorCode ?er, 3 * n + 1 := value0 ?er, 3 * n + 2 := value1 ?er]"
  have step: "read_errors_body n (s\<lparr>dataOut := d\<rparr>) = Inr (s\<lparr>dataOut := ?d'\<rparr>)"
    using Suc.prems d(2)
    by (simp add: read_errors_body_def rd_def wr_def nat_add_distrib nat_mult_distrib mult.commute)
  have "forE [0..<Suc n] read_errors_body s = Inr (s\<lparr>dataOut := ?d'\<rparr>)"
    by (simp add: forE_append d(1) step)
  moreover have "length ?d' = 256" using d(2) by simp
  moreover have "\<forall>i<Suc n. ?d' ! (3 * i) = errorCode (errors s ! i) \<and> ?d' ! (3 * i + 1) = value0 (errors s ! i)
          \<and> ?d' ! (3 * i + 2) = value1 (errors s ! i)"
    using d(2,3) Suc.prems(1) by (auto simp: nth_list_update less_Suc_eq)
  moreover have "\<forall>j. 3 * Suc n \<le> j \<longrightarrow> ?d' ! j = dataOut s ! j"
    using d(4) by (auto simp: nth_list_update)
  ultimately show ?case by blast
qed

text \<open>The count stays within the capacity, whatever is logged.\<close>

lemma addError_bound:
  "unat (nErrors s) \<le> MXERR \<Longrightarrow> unat (nErrors (addError c v0 v1 s)) \<le> MXERR"
  by (auto simp: addError_def MXERR_def unat_word_ariths)

lemma addError_length:
  "length (errors (addError c v0 v1 s)) = length (errors s)"
  by (simp add: addError_def)

text \<open>A full log is reached by 64 calls of \<open>addError\<close>, for instance by 64 commands
  ignored while the trigger is enabled.\<close>

lemma log_fills:
  "n \<le> 64 \<Longrightarrow> ((addError ERR_CMD_IGNORE 0x01 0) ^^ n) s_init =
     s_init\<lparr>nErrors := of_nat n,
            errors := replicate n \<lparr>errorCode = ERR_CMD_IGNORE, value0 = 0x01, value1 = 0\<rparr>
                      @ replicate (64 - n) \<lparr>errorCode = 0, value0 = 0, value1 = 0\<rparr>\<rparr>"
proof (induction n)
  case 0
  show ?case by (simp add: s_init_def MXERR_def)
next
  case (Suc n)
  then have n: "n < 64" by simp
  then have u: "unat (of_nat n :: u8) = n" by (simp add: unsigned_of_nat take_bit_nat_eq_self)
  have r: "64 - n = Suc (64 - Suc n)" using n by simp
  show ?case using Suc n
    apply (simp add: addError_def u MXERR_def)
    apply (simp add: s_init_def MXERR_def)
    apply (subst r)
    apply (simp add: list_update_append replicate_append_same del: replicate_Suc)
    apply (simp add: replicate_append_same)
    done
qed

lemma s_full_reachable: "((addError ERR_CMD_IGNORE 0x01 0) ^^ 64) s_init = s_full"
  using log_fills[of 64] by (simp add: s_full_def MXERR_def)

text \<open>
  C8. With \<open>n > 0\<close> errors in the log (and \<open>n\<close> within the capacity \<open>MXERR\<close>, which
  \<open>addError\<close> never exceeds), the read-errors command returns \<open>3n\<close> bytes, the recorded
  (code, value0, value1) triples in order, and sets the stored count to zero; run again
  with nothing logged in between, it returns the three bytes 0x00 0xEE 0xFF.
\<close>

theorem drain_twice:
  assumes "0 < unat (nErrors s)" "unat (nErrors s) \<le> MXERR"
    and "length (errors s) = MXERR" "length (dataOut s) = MAX_DATA_OUT"
  shows "\<exists>s1 s2. cmd_read_errors s = Inr s1 \<and> cmd_read_errors s1 = Inr s2 \<and>
     unat (nDataReady s1) = 3 * unat (nErrors s) \<and>
     (\<forall>i<unat (nErrors s).
         dataOut s1 ! (3 * i) = errorCode (errors s ! i) \<and>
         dataOut s1 ! (3 * i + 1) = value0 (errors s ! i) \<and>
         dataOut s1 ! (3 * i + 2) = value1 (errors s ! i)) \<and>
     nErrors s1 = 0 \<and>
     nDataReady s2 = 3 \<and> dataOut s2 ! 0 = 0x00 \<and> dataOut s2 ! 1 = 0xEE \<and> dataOut s2 ! 2 = 0xFF \<and>
     nErrors s2 = 0"
proof -
  let ?n = "unat (nErrors s)"
  let ?s0 = "s\<lparr>nDataReady := nErrors s * 3\<rparr>"
  have ne: "nErrors s \<noteq> 0" using assms(1) by (auto simp: unat_eq_0)
  obtain d where d: "forE [0..<?n] read_errors_body ?s0 = Inr (?s0\<lparr>dataOut := d\<rparr>)" "length d = 256"
    "\<forall>i<?n. d ! (3 * i) = errorCode (errors s ! i) \<and> d ! (3 * i + 1) = value0 (errors s ! i)
          \<and> d ! (3 * i + 2) = value1 (errors s ! i)"
    using read_errors_loop[of ?n ?s0] assms by (auto simp: MXERR_def MAX_DATA_OUT_def)
  let ?s1 = "?s0\<lparr>dataOut := d, nErrors := 0\<rparr>"
  let ?s2 = "?s1\<lparr>nDataReady := 3, dataOut := d[0 := 0x00, 1 := 0xEE, 2 := 0xFF]\<rparr>"
  have 1: "cmd_read_errors s = Inr ?s1" using ne d(1) by (simp add: cmd_read_errors_def)
  have 2: "cmd_read_errors ?s1 = Inr ?s2" by (simp add: cmd_read_errors_def)
  have 3: "unat (nDataReady ?s1) = 3 * ?n"
    using assms(2) by (simp add: MXERR_def unat_word_ariths)
  have 4: "dataOut ?s2 ! 0 = 0x00 \<and> dataOut ?s2 ! 1 = 0xEE \<and> dataOut ?s2 ! 2 = 0xFF"
    using d(2) by (simp add: nth_list_update)
  show ?thesis using 1 2 3 4 d(3) by (intro exI[of _ ?s1] exI[of _ ?s2]) simp
qed

theorem drain_twice_witness:
  "\<exists>s1 s2. cmd_read_errors s_two_errors = Inr s1 \<and> cmd_read_errors s1 = Inr s2 \<and>
     unat (nDataReady s1) = 6 \<and>
     dataOut s1 ! 0 = 5 \<and> dataOut s1 ! 1 = 0x3B \<and> dataOut s1 ! 2 = 0 \<and>
     dataOut s1 ! 3 = 9 \<and> dataOut s1 ! 4 = 0x22 \<and> dataOut s1 ! 5 = 0x57 \<and>
     nDataReady s2 = 3 \<and> dataOut s2 ! 0 = 0x00 \<and> dataOut s2 ! 1 = 0xEE \<and> dataOut s2 ! 2 = 0xFF"
proof -
  have h: "0 < unat (nErrors s_two_errors)" "unat (nErrors s_two_errors) \<le> MXERR"
     "length (errors s_two_errors) = MXERR" "length (dataOut s_two_errors) = MAX_DATA_OUT"
    by (simp_all add: s_two_errors_def s_init_def addError_def MXERR_def MAX_DATA_OUT_def)
  have n: "unat (nErrors s_two_errors) = 2"
    by (simp add: s_two_errors_def s_init_def addError_def MXERR_def)
  have e: "errors s_two_errors ! 0 = \<lparr>errorCode = 5, value0 = 0x3B, value1 = 0\<rparr>"
          "errors s_two_errors ! 1 = \<lparr>errorCode = 9, value0 = 0x22, value1 = 0x57\<rparr>"
    by (simp_all add: s_two_errors_def s_init_def addError_def MXERR_def
          ERR_CMD_IGNORE_def ERR_TKR_BAD_ECHO_def)
  from drain_twice[OF h] obtain s1 s2 where
    r: "cmd_read_errors s_two_errors = Inr s1" "cmd_read_errors s1 = Inr s2"
       "unat (nDataReady s1) = 3 * unat (nErrors s_two_errors)"
    and t: "\<forall>i<unat (nErrors s_two_errors).
         dataOut s1 ! (3 * i) = errorCode (errors s_two_errors ! i) \<and>
         dataOut s1 ! (3 * i + 1) = value0 (errors s_two_errors ! i) \<and>
         dataOut s1 ! (3 * i + 2) = value1 (errors s_two_errors ! i)"
    and u: "nDataReady s2 = 3" "dataOut s2 ! 0 = 0x00" "dataOut s2 ! 1 = 0xEE" "dataOut s2 ! 2 = 0xFF"
    by blast
  from t[rule_format, of 0] t[rule_format, of 1] n e
  have "dataOut s1 ! 0 = 5 \<and> dataOut s1 ! 1 = 0x3B \<and> dataOut s1 ! 2 = 0 \<and>
     dataOut s1 ! 3 = 9 \<and> dataOut s1 ! 4 = 0x22 \<and> dataOut s1 ! 5 = 0x57"
    by (simp add: numeral_2_eq_2)
  with r u n show ?thesis by (intro exI[of _ s1] exI[of _ s2]) simp
qed

section \<open>Properties of the correlation scan\<close>

text \<open>The buffer invariant holds initially and after every store and reset.\<close>

lemma tof_ok_empty: "tof_ok tof_empty"
  by (simp add: tof_ok_def tof_empty_def TOFMAX_EVT_def)

lemma tof_ok_clear: "tof_ok X \<Longrightarrow> tof_ok (tof_clear X)"
  by (simp add: tof_ok_def tof_clear_def TOFMAX_EVT_def)

lemma tof_ok_store:
  assumes "tof_ok X"
  shows "tof_ok (tof_store w clk X)"
proof -
  from assms have p: "unat (ptr X) < 64" by (simp add: tof_ok_def TOFMAX_EVT_def)
  then have "unat (ptr X + 1) = unat (ptr X) + 1" by (simp add: unat_word_ariths)
  then show ?thesis using assms
    by (auto simp: tof_ok_def tof_store_def Let_def TOFMAX_EVT_def)
qed

lemma forE_pure:
  "(\<And>i s. i \<in> set xs \<Longrightarrow> body i s = Inr (g i s)) \<Longrightarrow> forE xs body s = Inr (fold g xs s)"
  by (induction xs arbitrary: s) simp_all

lemma ring_back_alt:
  "ring_back p i = (if uint p - int i - 1 < 0 then uint p - int i + 63 else uint p - int i - 1)"
  by (simp add: ring_back_def Let_def TOFMAX_EVT_def)

lemma uint_small:
  assumes "unat (p :: u8) < 64"
  shows "0 \<le> uint p \<and> uint p < 64 \<and> uint p = int (unat p)"
proof -
  have e: "int (unat p) = uint p" by simp
  then have "uint p < 64" using assms by linarith
  with e show ?thesis by simp
qed

lemma ring_back_range:
  assumes "unat p < 64" "i < 64"
  shows "0 \<le> ring_back p i \<and> ring_back p i < 64"
proof (cases "uint p - int i - 1 < 0")
  case True
  then have "ring_back p i = uint p - int i + 63" by (simp add: ring_back_alt)
  then show ?thesis using uint_small[OF assms(1)] assms(2) True by linarith
next
  case False
  then have "ring_back p i = uint p - int i - 1" by (simp add: ring_back_alt)
  then show ?thesis using uint_small[OF assms(1)] assms(2) False by linarith
qed

lemma ring_back_onto:
  assumes "unat p < 64" "n < 64"
  shows "\<exists>i<64. ring_back p i = int n"
proof (cases "n < unat p")
  case True
  then have e: "int (unat p - 1 - n) = int (unat p) - 1 - int n" by linarith
  have "\<not> uint p - int (unat p - 1 - n) - 1 < 0"
    using uint_small[OF assms(1)] e by linarith
  then have "ring_back p (unat p - 1 - n) = uint p - int (unat p - 1 - n) - 1"
    by (simp only: ring_back_alt if_False)
  then have "ring_back p (unat p - 1 - n) = int n"
    using uint_small[OF assms(1)] e by linarith
  moreover have "unat p - 1 - n < 64" using assms by linarith
  ultimately show ?thesis by blast
next
  case False
  then have e: "int (unat p + 63 - n) = int (unat p) + 63 - int n" using assms by linarith
  have "uint p - int (unat p + 63 - n) - 1 < 0"
    using uint_small[OF assms(1)] e False assms(2) by linarith
  then have "ring_back p (unat p + 63 - n) = uint p - int (unat p + 63 - n) + 63"
    by (simp only: ring_back_alt if_True)
  then have "ring_back p (unat p + 63 - n) = int n"
    using uint_small[OF assms(1)] e by linarith
  moreover have "unat p + 63 - n < 64" using assms False by linarith
  ultimately show ?thesis by blast
qed

lemma ring_back_inj:
  assumes "unat p < 64" "i < 64" "k < 64" "ring_back p i = ring_back p k"
  shows "i = k"
proof -
  have "ring_back p i = uint p - int i + 63 \<or> ring_back p i = uint p - int i - 1"
       "ring_back p k = uint p - int k + 63 \<or> ring_back p k = uint p - int k - 1"
    by (simp_all add: ring_back_alt)
  moreover note ring_back_range[OF assms(1,2)] ring_back_range[OF assms(1,3)]
    uint_small[OF assms(1)] assms(2-4)
  ultimately show ?thesis by linarith
qed

lemma scanA_body_pure:
  assumes "tof_ok A" "i < 64"
  shows "scanA_body T A i idx =
     Inr (if selA T A (nat (ring_back (ptr A) i)) then idx @ [word_of_int (ring_back (ptr A) i)] else idx)"
proof -
  from assms have r: "0 \<le> ring_back (ptr A) i" "ring_back (ptr A) i < 64"
    using ring_back_range[of "ptr A" i] by (auto simp: tof_ok_def TOFMAX_EVT_def)
  from assms have l: "length (filled A) = 64" "length (clkCnt A) = 64"
    by (auto simp: tof_ok_def TOFMAX_EVT_def)
  show ?thesis using r l
    by (auto simp: scanA_body_def Let_def rd_def selA_def TOFMAX_EVT_def)
qed

lemma fold_collect:
  "fold (\<lambda>i idx. if P i then idx @ [f i] else idx) xs acc = acc @ map f (filter P xs)"
  by (induction xs arbitrary: acc) simp_all

lemma scanA_eq:
  assumes "tof_ok A"
  shows "scanA T A = Inr (map (\<lambda>i. word_of_int (ring_back (ptr A) i))
            (filter (\<lambda>i. selA T A (nat (ring_back (ptr A) i))) [0..<64]))"
proof -
  have "scanA T A = Inr (fold (\<lambda>i idx. if selA T A (nat (ring_back (ptr A) i))
            then idx @ [word_of_int (ring_back (ptr A) i)] else idx) [0..<64] [])"
    unfolding scanA_def TOFMAX_EVT_def
    by (rule forE_pure) (simp add: scanA_body_pure[OF assms])
  then show ?thesis by (simp add: fold_collect)
qed

lemma unat_ring_word:
  assumes "unat p < 64" "i < 64"
  shows "unat (word_of_int (ring_back p i) :: u8) = nat (ring_back p i)"
    and "uint (word_of_int (ring_back p i) :: u8) = ring_back p i"
proof -
  from ring_back_range[OF assms] have r: "0 \<le> ring_back p i" "ring_back p i < 64" by auto
  then show "uint (word_of_int (ring_back p i) :: u8) = ring_back p i"
    by (simp add: uint_word_of_int take_bit_eq_mod)
  then show "unat (word_of_int (ring_back p i) :: u8) = nat (ring_back p i)"
    by (simp add: unat_eq_nat_uint)
qed

lemma scanA_set:
  assumes "tof_ok A" "scanA T A = Inr idx"
  shows "unat ` set idx = {i. selA T A i}" and "distinct idx" and "length idx \<le> 64"
proof -
  let ?p = "ptr A"
  have p: "unat ?p < 64" using assms(1) by (simp add: tof_ok_def TOFMAX_EVT_def)
  let ?sel = "filter (\<lambda>i. selA T A (nat (ring_back ?p i))) [0..<64]"
  have idx: "idx = map (\<lambda>i. word_of_int (ring_back ?p i)) ?sel"
    using scanA_eq[OF assms(1), of T] assms(2) by simp
  show "unat ` set idx = {i. selA T A i}"
  proof (intro set_eqI iffI)
    fix n assume "n \<in> unat ` set idx"
    then obtain i where i: "i < 64" "selA T A (nat (ring_back ?p i))"
        "n = unat (word_of_int (ring_back ?p i) :: u8)"
      unfolding idx by auto
    then show "n \<in> {i. selA T A i}" using unat_ring_word(1)[OF p i(1)] by simp
  next
    fix n assume "n \<in> {i. selA T A i}"
    then have s: "selA T A n" and n: "n < 64" by (auto simp: selA_def TOFMAX_EVT_def)
    from ring_back_onto[OF p n] obtain i where i: "i < 64" "ring_back ?p i = int n" by blast
    then have "i \<in> set ?sel" using s by simp
    moreover have "unat (word_of_int (ring_back ?p i) :: u8) = n"
      using unat_ring_word(1)[OF p i(1)] i(2) by simp
    ultimately show "n \<in> unat ` set idx" unfolding idx by force
  qed
  have "inj_on (\<lambda>i. word_of_int (ring_back ?p i) :: u8) (set ?sel)"
  proof (rule inj_onI)
    fix i k assume a: "i \<in> set ?sel" "k \<in> set ?sel"
      "(word_of_int (ring_back ?p i) :: u8) = word_of_int (ring_back ?p k)"
    then have ik: "i < 64" "k < 64" by auto
    from a(3) have "uint (word_of_int (ring_back ?p i) :: u8) = uint (word_of_int (ring_back ?p k) :: u8)"
      by simp
    then have "ring_back ?p i = ring_back ?p k"
      using unat_ring_word(2)[OF p ik(1)] unat_ring_word(2)[OF p ik(2)] by simp
    then show "i = k" using ring_back_inj[OF p ik] by simp
  qed
  then show "distinct idx" unfolding idx by (simp add: distinct_map)
  show "length idx \<le> 64" unfolding idx using length_filter_le[of _ "[0..<64]"] by simp
qed


lemma sint16_of_int:
  assumes "\<bar>d\<bar> < 32767"
  shows "sint (word_of_int d :: 16 word) = d"
proof -
  have "(d + 32768) mod 65536 = d + 32768" using assms by (intro mod_pos_pos_trivial) linarith+
  then show ?thesis by (simp add: int_word_sint)
qed

lemma min_inv_upd:
  assumes "min_inv S c"
  shows "min_inv (insert dt S) (upd dt ca cb ra rb c)"
proof (cases "\<bar>dt\<bar> < \<bar>sint (dtmin c)\<bar>")
  case True
  from assms have b: "\<bar>sint (dtmin c)\<bar> \<le> 32767" by (auto simp: min_inv_def)
  with True have s: "sint (word_of_int dt :: 16 word) = dt" by (intro sint16_of_int) linarith
  have "dtmin (upd dt ca cb ra rb c) = word_of_int dt" using True by (simp add: upd_def)
  then have m: "sint (dtmin (upd dt ca cb ra rb c)) = dt" using s by simp
  have "\<forall>d\<in>S. \<bar>dt\<bar> \<le> \<bar>d\<bar>" using assms True by (fastforce simp: min_inv_def)
  then show ?thesis using True b unfolding min_inv_def m by auto
next
  case False
  then have "upd dt ca cb ra rb c = c" by (simp add: upd_def)
  then show ?thesis using assms False by (auto simp: min_inv_def)
qed

lemma upd_nJ [simp]: "nJ (upd dt ca cb ra rb c) = nJ c"
  by (simp add: upd_def)

lemma min_inv_inner:
  assumes "min_inv S c"
  shows "min_inv (S \<union> {dt_at A B (i, j) | i. i \<in> set is \<and> near A B i j}) (fold (hA A B j) is c)
     \<and> nJ (fold (hA A B j) is c) = nJ c"
  using assms
proof (induction "is" arbitrary: S c)
  case Nil
  then show ?case by simp
next
  case (Cons a "is")
  let ?c = "hA A B j a c"
  let ?S = "if near A B a j then insert (dt_at A B (a, j)) S else S"
  have "min_inv ?S ?c" using Cons.prems by (simp add: hA_def min_inv_upd)
  from Cons.IH[OF this]
  have "min_inv (?S \<union> {dt_at A B (i, j) | i. i \<in> set is \<and> near A B i j}) (fold (hA A B j) is ?c)"
    and n: "nJ (fold (hA A B j) is ?c) = nJ ?c" by auto
  moreover have "?S \<union> {dt_at A B (i, j) | i. i \<in> set is \<and> near A B i j}
       = S \<union> {dt_at A B (i, j) | i. i \<in> set (a # is) \<and> near A B i j}" by auto
  moreover have "nJ ?c = nJ c" by (simp add: hA_def)
  ultimately show ?case by simp
qed

lemma min_inv_nJ [simp]: "min_inv S (c\<lparr>nJ := n\<rparr>) = min_inv S c"
  by (simp add: min_inv_def)

lemma min_inv_outer:
  assumes "min_inv S c"
  shows "min_inv (S \<union> {dt_at A B (i, j) | i j. j \<in> set js \<and> selB T B j \<and> i \<in> set ias \<and> near A B i j})
           (fold (hB T A B ias) js c)"
  using assms
proof (induction js arbitrary: S c)
  case Nil
  then show ?case by simp
next
  case (Cons b js)
  let ?c = "hB T A B ias b c"
  let ?S = "if selB T B b then S \<union> {dt_at A B (i, b) | i. i \<in> set ias \<and> near A B i b} else S"
  have "min_inv ?S ?c"
    using min_inv_inner[of S "c\<lparr>nJ := nJ c + 1\<rparr>" A B b ias] Cons.prems by (simp add: hB_def)
  from Cons.IH[OF this]
  have "min_inv (?S \<union> {dt_at A B (i, j) | i j. j \<in> set js \<and> selB T B j \<and> i \<in> set ias \<and> near A B i j})
           (fold (hB T A B ias) js ?c)" .
  moreover have "?S \<union> {dt_at A B (i, j) | i j. j \<in> set js \<and> selB T B j \<and> i \<in> set ias \<and> near A B i j}
     = S \<union> {dt_at A B (i, j) | i j. j \<in> set (b # js) \<and> selB T B j \<and> i \<in> set ias \<and> near A B i j}"
    by auto
  ultimately show ?case by simp
qed


lemma corrA_body_pure:
  assumes "tof_ok A" "tof_ok B" "i < length idx" "unat (idx ! i) < 64" "jb < 64"
  shows "corrA_body A B idx (int jb) i c = Inr (hA A B jb (unat (idx ! i)) c)"
proof -
  from assms(1,2) have l: "length (clkCnt A) = 64" "length (shiftReg A) = 64"
      "length (clkCnt B) = 64" "length (shiftReg B) = 64"
    by (auto simp: tof_ok_def TOFMAX_EVT_def)
  have u: "uint (idx ! i) < 64" "nat (uint (idx ! i)) = unat (idx ! i)"
    using uint_small[OF assms(4)] by simp_all
  show ?thesis using assms(3,5) l u
    by (simp add: corrA_body_def rd_def Let_def hA_def near_def upd_def dt_at_def not_less)
qed

lemma corrA_loop:
  assumes "tof_ok A" "tof_ok B" "\<forall>x\<in>set idx. unat x < 64" "jb < 64"
  shows "forE [0..<length idx] (corrA_body A B idx (int jb)) c = Inr (fold (hA A B jb) (map unat idx) c)"
proof -
  have "forE [0..<length idx] (corrA_body A B idx (int jb)) c
      = Inr (fold (\<lambda>i. hA A B jb (unat (idx ! i))) [0..<length idx] c)"
    using assms by (intro forE_pure corrA_body_pure) auto
  also have "fold (\<lambda>i. hA A B jb (unat (idx ! i))) [0..<length idx] c
      = fold (hA A B jb) (map (\<lambda>i. unat (idx ! i)) [0..<length idx]) c"
    by (simp add: fold_map comp_def)
  also have "map (\<lambda>i. unat (idx ! i)) [0..<length idx] = map unat idx"
    by (intro nth_equalityI) simp_all
  finally show ?thesis .
qed

lemma corrB_body_pure:
  assumes "tof_ok A" "tof_ok B" "\<forall>x\<in>set idx. unat x < 64" "j < 64"
  shows "corrB_body T A B idx j c = Inr (hB T A B (map unat idx) (nat (ring_back (ptr B) j)) c)"
proof -
  have p: "unat (ptr B) < 64" using assms(2) by (simp add: tof_ok_def TOFMAX_EVT_def)
  from ring_back_range[OF p assms(4)]
  have r: "0 \<le> ring_back (ptr B) j" "ring_back (ptr B) j < 64" by auto
  define jb where "jb = nat (ring_back (ptr B) j)"
  have jb: "ring_back (ptr B) j = int jb" "jb < 64" using r by (simp_all add: jb_def)
  from assms(2) have l: "length (filled B) = 64" "length (clkCnt B) = 64"
    by (auto simp: tof_ok_def TOFMAX_EVT_def)
  show ?thesis
    unfolding corrB_body_def Let_def jb(1) jb_def[symmetric]
    using jb(2) l corrA_loop[OF assms(1-3) jb(2)]
    by (auto simp: rd_def hB_def selB_def TOFMAX_EVT_def)
qed

lemma ring_list:
  assumes "unat p < 64"
  shows "set (map (\<lambda>j. nat (ring_back p j)) [0..<64]) = {0..<64}"
    and "distinct (map (\<lambda>j. nat (ring_back p j)) [0..<64])"
proof -
  show "set (map (\<lambda>j. nat (ring_back p j)) [0..<64]) = {0..<64}"
  proof (intro set_eqI iffI)
    fix n assume "n \<in> set (map (\<lambda>j. nat (ring_back p j)) [0..<64])"
    then obtain j where "j < 64" "n = nat (ring_back p j)" by auto
    then have "n < 64" using ring_back_range[OF assms, of j] by linarith
    then show "n \<in> {0..<64}" by simp
  next
    fix n :: nat assume "n \<in> {0..<64}"
    then have "n < 64" by simp
    from ring_back_onto[OF assms this] obtain j where "j < 64" "ring_back p j = int n" by blast
    then have "j \<in> set [0..<64]" "nat (ring_back p j) = n" by simp_all
    then show "n \<in> set (map (\<lambda>j. nat (ring_back p j)) [0..<64])" by force
  qed
  have "inj_on (\<lambda>j. nat (ring_back p j)) (set [0..<64])"
  proof (rule inj_onI)
    fix i k assume a: "i \<in> set [0..<64]" "k \<in> set [0..<64]" "nat (ring_back p i) = nat (ring_back p k)"
    then have ik: "i < 64" "k < 64" by simp_all
    from a(3) ring_back_range[OF assms ik(1)] ring_back_range[OF assms ik(2)]
    have "ring_back p i = ring_back p k" by linarith
    then show "i = k" using ring_back_inj[OF assms ik] by simp
  qed
  then show "distinct (map (\<lambda>j. nat (ring_back p j)) [0..<64])" by (simp add: distinct_map)
qed

lemma nJ_inner: "nJ (fold (hA A B j) is c) = nJ c"
  by (induction "is" arbitrary: c) (simp_all add: hA_def)

lemma nJ_outer:
  "nJ (fold (hB T A B ias) js c) = nJ c + int (length (filter (selB T B) js))"
proof (induction js arbitrary: c)
  case Nil
  then show ?case by simp
next
  case (Cons b js)
  have "nJ (hB T A B ias b c) = (if selB T B b then nJ c + 1 else nJ c)"
    by (simp add: hB_def nJ_inner)
  then show ?case using Cons.IH[of "hB T A B ias b c"] by simp
qed


lemma correlate_char:
  assumes "tof_ok A" "tof_ok B"
  shows "\<exists>idx c. scanA T A = Inr idx \<and> correlate T A B = Inr (idx, c)
     \<and> unat ` set idx = {i. selA T A i} \<and> distinct idx
     \<and> min_inv (dt_at A B ` pairs T A B) c
     \<and> nJ c = int (card {j. selB T B j})"
proof -
  obtain idx where idx: "scanA T A = Inr idx"
    using scanA_eq[OF assms(1), of T] by blast
  note ia = scanA_set[OF assms(1) idx]
  have small: "\<forall>x\<in>set idx. unat x < 64"
  proof
    fix x assume "x \<in> set idx"
    then have "unat x \<in> {i. selA T A i}" using ia(1) by blast
    then show "unat x < 64" by (simp add: selA_def TOFMAX_EVT_def)
  qed
  define js where "js = map (\<lambda>j. nat (ring_back (ptr B) j)) [0..<64]"
  define ias where "ias = map unat idx"
  let ?c = "fold (hB T A B ias) js corr_init"
  have pB: "unat (ptr B) < 64" using assms(2) by (simp add: tof_ok_def TOFMAX_EVT_def)
  have sjs: "set js = {0..<64}" and djs: "distinct js"
    unfolding js_def using ring_list[OF pB] by auto
  have sias: "set ias = {i. selA T A i}" unfolding ias_def using ia(1) by simp
  have selB_lt: "j \<in> {0..<64}" if "selB T B j" for j
    using that by (simp add: selB_def TOFMAX_EVT_def)
  have "forE [0..<TOFMAX_EVT] (corrB_body T A B idx) corr_init
      = Inr (fold (\<lambda>j. hB T A B ias (nat (ring_back (ptr B) j))) [0..<64] corr_init)"
    unfolding TOFMAX_EVT_def ias_def
    using corrB_body_pure[OF assms small] by (intro forE_pure) simp
  also have "fold (\<lambda>j. hB T A B ias (nat (ring_back (ptr B) j))) [0..<64] corr_init = ?c"
    unfolding js_def by (simp add: fold_map comp_def)
  finally have loop: "forE [0..<TOFMAX_EVT] (corrB_body T A B idx) corr_init = Inr ?c" .
  then have res: "correlate T A B = Inr (idx, ?c)" by (simp add: correlate_def idx)
  have "min_inv {} corr_init" by (simp add: min_inv_def corr_init_def)
  from min_inv_outer[OF this, of A B js T ias]
  have "min_inv {dt_at A B (i, j) | i j. j \<in> set js \<and> selB T B j \<and> i \<in> set ias \<and> near A B i j} ?c"
    by simp
  moreover have "{dt_at A B (i, j) | i j. j \<in> set js \<and> selB T B j \<and> i \<in> set ias \<and> near A B i j}
      = {dt_at A B (i, j) | i j. selB T B j \<and> selA T A i \<and> near A B i j}"
    unfolding sjs sias using selB_lt by blast
  moreover have "{dt_at A B (i, j) | i j. selB T B j \<and> selA T A i \<and> near A B i j} = dt_at A B ` pairs T A B"
    unfolding pairs_def by auto
  ultimately have inv: "min_inv (dt_at A B ` pairs T A B) ?c" by simp
  have "nJ ?c = int (length (filter (selB T B) js))"
    by (simp add: nJ_outer corr_init_def)
  also have "length (filter (selB T B) js) = card ({j. selB T B j} \<inter> set js)"
    using djs by (simp add: distinct_length_filter)
  also have "{j. selB T B j} \<inter> set js = {j. selB T B j}"
    unfolding sjs using selB_lt by blast
  finally have "nJ ?c = int (card {j. selB T B j})" .
  with idx res ia inv show ?thesis by blast
qed

lemma mask16: "(w :: u32) AND 0x0000FFFF = take_bit 16 w"
proof -
  have "(0x0000FFFF :: u32) = mask 16" by (simp add: mask_eq_exp_minus_1)
  then show ?thesis by (simp add: take_bit_eq_mask)
qed

lemma hi16: "drop_bit 16 ((w :: u32) AND 0xFFFF0000) = drop_bit 16 w"
proof -
  have "drop_bit 16 (0xFFFF0000 :: u32) = mask 16" by (simp add: mask_eq_exp_minus_1 drop_bit_eq_div word_div_def)
  then have "drop_bit 16 (w AND 0xFFFF0000) = take_bit 16 (drop_bit 16 w)"
    by (simp add: take_bit_eq_mask)
  also have "\<dots> = drop_bit 16 w"
    by (rule bit_word_eqI) (auto simp: bit_take_bit_iff bit_drop_bit_eq dest: bit_imp_le_length)
  finally show ?thesis .
qed

lemma unat_stop_of: "unat (stop_of w) = unat w mod 65536"
  unfolding stop_of_def mask16
  by (simp add: unsigned_ucast_eq unsigned_take_bit_eq take_bit_eq_mod unat_mod)

lemma unat_ref_of: "unat (ref_of w) = unat w div 65536"
proof -
  have "unat w < 2 ^ 32" using unsigned_less[of w, where ?'a = nat] by simp
  then have "unat w div 65536 < 65536" by simp
  then show ?thesis
    unfolding ref_of_def hi16
    by (simp add: unsigned_ucast_eq unat_drop_bit_eq drop_bit_eq_div take_bit_eq_mod unat_div)
qed

text \<open>Away from \<open>T = 0\<close> the integer comparisons of lines 1472 and 1488 are
  comparisons with the 16-bit values \<open>T\<close> and \<open>T - 1\<close>.\<close>

lemma tag_minus_one:
  fixes T c :: u16
  assumes "T \<noteq> 0"
  shows "uint T = uint c + 1 \<longleftrightarrow> c = T - 1" and "uint c = uint T - 1 \<longleftrightarrow> c = T - 1"
    and "uint T = uint c \<longleftrightarrow> c = T" and "uint c = uint T \<longleftrightarrow> c = T"
proof -
  have "unat (T - 1) = unat T - 1" using assms by (rule unat_minus_one)
  moreover have "0 < unat T" using assms by (simp add: unat_gt_0)
  ultimately have m: "uint (T - 1) = uint T - 1"
    by (simp add: uint_nat of_nat_diff del: of_nat_unat)
  show "uint c = uint T - 1 \<longleftrightarrow> c = T - 1"
    unfolding m[symmetric] by (simp add: word_uint_eq_iff)
  then show "uint T = uint c + 1 \<longleftrightarrow> c = T - 1" by linarith
  show "uint T = uint c \<longleftrightarrow> c = T" "uint c = uint T \<longleftrightarrow> c = T"
    by (auto simp: word_uint_eq_iff)
qed

text \<open>
  C2 (as amended). For a trigger tag \<open>T\<close> other than 0 and well-formed buffers, the
  channel-A pass collects exactly the filled entries whose clock tag is \<open>T\<close> or \<open>T - 1\<close>,
  each once; the channel-B pass counts in \<open>nJ\<close> exactly the filled entries whose clock tag
  is \<open>T\<close> or \<open>T - 1\<close>, and leaves the running state untouched at every other entry.
\<close>

theorem scan_candidates:
  assumes "tof_ok A" "tof_ok B" "T \<noteq> 0"
  shows "\<exists>idx c. scanA T A = Inr idx \<and> correlate T A B = Inr (idx, c) \<and> distinct idx \<and>
     unat ` set idx = {i. i < TOFMAX_EVT \<and> filled A ! i \<and>
         (clkCnt A ! i = T \<or> clkCnt A ! i = T - 1)} \<and>
     nJ c = int (card {j. j < TOFMAX_EVT \<and> filled B ! j \<and>
         (clkCnt B ! j = T \<or> clkCnt B ! j = T - 1)}) \<and>
     (\<forall>j<TOFMAX_EVT. \<forall>c0.
        \<not> (filled B ! nat (ring_back (ptr B) j) \<and>
           (clkCnt B ! nat (ring_back (ptr B) j) = T \<or>
            clkCnt B ! nat (ring_back (ptr B) j) = T - 1))
        \<longrightarrow> corrB_body T A B idx j c0 = Inr c0)"
proof -
  note tm = tag_minus_one[OF assms(3)]
  from correlate_char[OF assms(1,2), of T] obtain idx c where
    r: "scanA T A = Inr idx" "correlate T A B = Inr (idx, c)" "distinct idx"
    and a: "unat ` set idx = {i. selA T A i}" and b: "nJ c = int (card {j. selB T B j})"
    by blast
  have sa: "{i. selA T A i} = {i. i < TOFMAX_EVT \<and> filled A ! i \<and>
         (clkCnt A ! i = T \<or> clkCnt A ! i = T - 1)}"
    by (auto simp: selA_def tm)
  have sb: "{j. selB T B j} = {j. j < TOFMAX_EVT \<and> filled B ! j \<and>
         (clkCnt B ! j = T \<or> clkCnt B ! j = T - 1)}"
    by (auto simp: selB_def tm)
  have small: "\<forall>x\<in>set idx. unat x < 64"
  proof
    fix x assume "x \<in> set idx"
    then have "unat x \<in> {i. selA T A i}" using a by blast
    then show "unat x < 64" by (simp add: selA_def TOFMAX_EVT_def)
  qed
  have ign: "corrB_body T A B idx j c0 = Inr c0"
    if "j < TOFMAX_EVT" "\<not> (filled B ! nat (ring_back (ptr B) j) \<and>
           (clkCnt B ! nat (ring_back (ptr B) j) = T \<or>
            clkCnt B ! nat (ring_back (ptr B) j) = T - 1))" for j c0
  proof -
    from that(1) have j: "j < 64" by (simp add: TOFMAX_EVT_def)
    from that(2) have "\<not> selB T B (nat (ring_back (ptr B) j))" by (auto simp: selB_def tm)
    then show ?thesis using corrB_body_pure[OF assms(1,2) small j, of T c0] by (simp add: hB_def)
  qed
  from r a b ign show ?thesis unfolding sa sb by blast
qed

theorem scan_candidates_witness:
  "tof_ok exA \<and> tof_ok exB \<and> (1000 :: u16) \<noteq> 0 \<and>
   (\<exists>idx c. scanA 1000 exA = Inr idx \<and> correlate 1000 exA exB = Inr (idx, c) \<and> distinct idx
      \<and> corrB_body 1000 exA exB idx 5 corr_init = Inr corr_init)"
proof -
  have ok: "tof_ok exA" "tof_ok exB" by code_simp+
  have T: "(1000 :: u16) \<noteq> 0" by simp
  have n: "\<not> (filled exB ! nat (ring_back (ptr exB) 5) \<and>
           (clkCnt exB ! nat (ring_back (ptr exB) 5) = (1000 :: u16) \<or>
            clkCnt exB ! nat (ring_back (ptr exB) 5) = (1000 :: u16) - 1))"
    by code_simp
  have 5: "(5 :: nat) < TOFMAX_EVT" by (simp add: TOFMAX_EVT_def)
  from scan_candidates[OF ok T] 5 n ok T show ?thesis by blast
qed

text \<open>The claim as stated fails for channel A: a filled entry tagged \<open>T + 1\<close> is not
  collected, and a filled entry tagged \<open>T - 1\<close> is.\<close>

theorem scan_candidates_counterexample:
  "scanA 1000 cxA_next = Inr [] \<and> filled cxA_next ! 0 \<and> clkCnt cxA_next ! 0 = 1000 + 1
   \<and> scanA 1000 exA = Inr [1, 0] \<and> filled exA ! 0 \<and> clkCnt exA ! 0 = 1000 - 1"
  by code_simp

text \<open>
  C5. For the pair of shift-register words \<open>AT\<close>, \<open>BT\<close> the full time of a channel is
  reference count times 8333 plus stop count, the reference count being the upper and the
  stop count the lower 16 bits; when one reference count exceeds 49152 while the other is
  below 16384, 500000000 is subtracted from the full time of the channel with the larger
  reference count (which is the larger full time) before \<open>timeB - timeA\<close> is formed, and
  otherwise the plain difference is used. All values fit the 32-bit \<open>int\<close> of the source.
\<close>

theorem pair_dt_rollover:
  fixes AT BT :: u32
  shows "let refA = int (unat AT div 65536); stopA = int (unat AT mod 65536);
             refB = int (unat BT div 65536); stopB = int (unat BT mod 65536);
             timeA = refA * 8333 + stopA; timeB = refB * 8333 + stopB
         in full_time AT = timeA \<and> full_time BT = timeB \<and>
            pair_dt AT BT =
              (if 49152 < refA \<and> refB < 16384 then timeB - (timeA - 500000000)
               else if 49152 < refB \<and> refA < 16384 then (timeB - 500000000) - timeA
               else timeB - timeA) \<and>
            (49152 < refA \<and> refB < 16384 \<longrightarrow> timeB < timeA) \<and>
            (49152 < refB \<and> refA < 16384 \<longrightarrow> timeA < timeB) \<and>
            0 \<le> timeA \<and> timeA < 2 ^ 31 \<and> 0 \<le> timeB \<and> timeB < 2 ^ 31 \<and>
            - (2 ^ 31) \<le> pair_dt AT BT \<and> pair_dt AT BT < 2 ^ 31"
proof -
  define refA where "refA = int (unat AT div 65536)"
  define stopA where "stopA = int (unat AT mod 65536)"
  define refB where "refB = int (unat BT div 65536)"
  define stopB where "stopB = int (unat BT mod 65536)"
  have lt: "unat AT < 2 ^ 32" "unat BT < 2 ^ 32"
    using unsigned_less[of AT, where ?'a = nat] unsigned_less[of BT, where ?'a = nat] by simp_all
  have bA: "0 \<le> refA" "refA \<le> 65535" "0 \<le> stopA" "stopA \<le> 65535"
    using lt(1) by (simp_all add: refA_def stopA_def)
  have bB: "0 \<le> refB" "refB \<le> 65535" "0 \<le> stopB" "stopB \<le> 65535"
    using lt(2) by (simp_all add: refB_def stopB_def)
  have rA: "uint (ref_of AT) = refA" "uint (stop_of AT) = stopA"
    by (simp_all add: uint_nat unat_ref_of unat_stop_of refA_def stopA_def del: of_nat_div of_nat_mod)
  have rB: "uint (ref_of BT) = refB" "uint (stop_of BT) = stopB"
    by (simp_all add: uint_nat unat_ref_of unat_stop_of refB_def stopB_def del: of_nat_div of_nat_mod)
  have fA: "full_time AT = refA * 8333 + stopA" by (simp add: full_time_def rA)
  have fB: "full_time BT = refB * 8333 + stopB" by (simp add: full_time_def rB)
  have dt: "pair_dt AT BT =
      (if 49152 < refA \<and> refB < 16384 then (refB * 8333 + stopB) - ((refA * 8333 + stopA) - 500000000)
       else if 49152 < refB \<and> refA < 16384 then ((refB * 8333 + stopB) - 500000000) - (refA * 8333 + stopA)
       else (refB * 8333 + stopB) - (refA * 8333 + stopA))"
    by (simp add: pair_dt_def Let_def rA rB fA fB)
  have 1: "49152 < refA \<and> refB < 16384 \<longrightarrow> refB * 8333 + stopB < refA * 8333 + stopA"
    using bA bB by linarith
  have 2: "49152 < refB \<and> refA < 16384 \<longrightarrow> refA * 8333 + stopA < refB * 8333 + stopB"
    using bA bB by linarith
  have 3: "0 \<le> refA * 8333 + stopA" "refA * 8333 + stopA < 2 ^ 31"
          "0 \<le> refB * 8333 + stopB" "refB * 8333 + stopB < 2 ^ 31"
    using bA bB by simp_all
  have 4: "- (2 ^ 31) \<le> pair_dt AT BT \<and> pair_dt AT BT < 2 ^ 31"
    unfolding dt using bA bB by (simp split: if_split)
  show ?thesis
    unfolding Let_def refA_def[symmetric] stopA_def[symmetric] refB_def[symmetric] stopB_def[symmetric]
    using fA fB dt 1 2 3 4 by simp
qed

theorem pair_dt_rollover_witness:
  "pair_dt 0xC0010000 0x00000005 = 90408056 \<and> full_time 0x00000005 < full_time 0xC0010000"
  using pair_dt_rollover[of "0xC0010000" "0x00000005"] by (simp add: Let_def)

text \<open>
  C1 (as amended). On well-formed buffers the scan ranges over the pairs of a channel-A
  and a channel-B candidate whose clock tags differ by at most one. If some pair has a
  rollover-corrected difference \<open>dt\<close> (\<open>pair_dt\<close>, time B minus time A) with
  \<open>|dt| < 32767\<close>, the reported \<open>dtmin\<close> is the \<open>dt\<close> of a pair whose \<open>|dt|\<close> is minimal
  among all pairs; if no pair has \<open>|dt| < 32767\<close>, in particular if there is no pair,
  \<open>dtmin\<close> is 32767.
\<close>

theorem correlate_minimum:
  assumes "tof_ok A" "tof_ok B"
  shows "\<exists>idx c. correlate T A B = Inr (idx, c) \<and>
    ((\<exists>p\<in>pairs T A B. \<bar>dt_at A B p\<bar> < 32767) \<longrightarrow>
       (\<exists>p\<in>pairs T A B. sint (dtmin c) = dt_at A B p \<and> (\<forall>q\<in>pairs T A B. \<bar>dt_at A B p\<bar> \<le> \<bar>dt_at A B q\<bar>))) \<and>
    ((\<forall>p\<in>pairs T A B. 32767 \<le> \<bar>dt_at A B p\<bar>) \<longrightarrow> dtmin c = 32767)"
proof -
  from correlate_char[OF assms, of T] obtain idx c where
    r: "correlate T A B = Inr (idx, c)" and inv: "min_inv (dt_at A B ` pairs T A B) c"
    by blast
  from inv have low: "\<forall>q\<in>pairs T A B. \<bar>sint (dtmin c)\<bar> \<le> \<bar>dt_at A B q\<bar>"
    and alt: "sint (dtmin c) = 32767 \<or> (sint (dtmin c) \<in> dt_at A B ` pairs T A B \<and> \<bar>sint (dtmin c)\<bar> < 32767)"
    by (auto simp: min_inv_def)
  have 1: "\<exists>p\<in>pairs T A B. sint (dtmin c) = dt_at A B p \<and> (\<forall>q\<in>pairs T A B. \<bar>dt_at A B p\<bar> \<le> \<bar>dt_at A B q\<bar>)"
    if "\<exists>p\<in>pairs T A B. \<bar>dt_at A B p\<bar> < 32767"
  proof -
    from that low have "\<bar>sint (dtmin c)\<bar> < 32767" by fastforce
    with alt obtain p where "p \<in> pairs T A B" "sint (dtmin c) = dt_at A B p" by auto
    with low show ?thesis by auto
  qed
  have 2: "dtmin c = 32767" if "\<forall>p\<in>pairs T A B. 32767 \<le> \<bar>dt_at A B p\<bar>"
  proof -
    from alt that have "sint (dtmin c) = 32767" by fastforce
    then have "sint (dtmin c) = sint (32767 :: 16 word)" by simp
    then show ?thesis by (rule signed_word_eqI)
  qed
  from r 1 2 show ?thesis by blast
qed

theorem correlate_minimum_witness:
  "tof_ok exA \<and> tof_ok exB \<and> (\<exists>idx c. correlate 1000 exA exB = Inr (idx, c) \<and> \<bar>sint (dtmin c)\<bar> \<le> 256)"
proof -
  have ok: "tof_ok exA" "tof_ok exB" by code_simp+
  have p: "(1, 0) \<in> pairs 1000 exA exB"
    unfolding pairs_def by (simp, code_simp)
  have d: "dt_at exA exB (1, 0) = 256" by code_simp
  from correlate_minimum[OF ok, of 1000] obtain idx c where
    r: "correlate 1000 exA exB = Inr (idx, c)"
    and m: "(\<exists>p\<in>pairs 1000 exA exB. \<bar>dt_at exA exB p\<bar> < 32767) \<longrightarrow>
       (\<exists>p\<in>pairs 1000 exA exB. sint (dtmin c) = dt_at exA exB p \<and>
          (\<forall>q\<in>pairs 1000 exA exB. \<bar>dt_at exA exB p\<bar> \<le> \<bar>dt_at exA exB q\<bar>))"
    by blast
  have "\<exists>p\<in>pairs 1000 exA exB. \<bar>dt_at exA exB p\<bar> < 32767"
    using p d by (intro bexI[of _ "(1, 0)"]) simp_all
  with m obtain p' where "sint (dtmin c) = dt_at exA exB p'"
     "\<forall>q\<in>pairs 1000 exA exB. \<bar>dt_at exA exB p'\<bar> \<le> \<bar>dt_at exA exB q\<bar>" by blast
  with p d have "\<bar>sint (dtmin c)\<bar> \<le> 256" by fastforce
  with ok r show ?thesis by blast
qed

text \<open>The claim as stated fails: here one pair exists, its time difference is 33332,
  and the scan reports 32767.\<close>

theorem correlate_minimum_counterexample:
  "correlate 1000 cxA cxB = Inr ([0], \<lparr>dtmin = 32767, aCLK = 65535, bCLK = 65535, aTOF = 65535, bTOF = 65535, nJ = 1\<rparr>)
   \<and> filled cxA ! 0 \<and> clkCnt cxA ! 0 = 1000 \<and> filled cxB ! 0 \<and> clkCnt cxB ! 0 = 1000
   \<and> full_time (shiftReg cxB ! 0) - full_time (shiftReg cxA ! 0) = 33332"
  by code_simp

section \<open>Properties of the command input\<close>

lemma copy_fold_nth:
  assumes "n \<le> 9" "18 \<le> length b"
  shows "length (fold (\<lambda>i b. b[i := b ! (i + 9)]) [0..<n] b) = length b \<and>
     (\<forall>k<length b. fold (\<lambda>i b. b[i := b ! (i + 9)]) [0..<n] b ! k = (if k < n then b ! (k + 9) else b ! k))"
  using assms
proof (induction n)
  case 0
  then show ?case by simp
next
  case (Suc n)
  let ?b = "fold (\<lambda>i b. b[i := b ! (i + 9)]) [0..<n] b"
  from Suc have IH: "length ?b = length b"
    "\<forall>k<length b. ?b ! k = (if k < n then b ! (k + 9) else b ! k)" by auto
  have f: "fold (\<lambda>i b. b[i := b ! (i + 9)]) [0..<Suc n] b = ?b[n := ?b ! (n + 9)]" by simp
  have "?b ! (n + 9) = b ! (n + 9)" using IH(2) Suc.prems by simp
  then show ?case unfolding f using IH Suc.prems by (auto simp: nth_list_update)
qed

lemma copies_eq:
  assumes "27 \<le> length buffer"
  shows "copy1 buffer = copy2 buffer \<longleftrightarrow> (\<forall>i<9. buffer ! i = buffer ! (i + 9))"
    and "copy1 buffer = copy3 buffer \<longleftrightarrow> (\<forall>i<9. buffer ! i = buffer ! (i + 18))"
    and "copy2 buffer = copy3 buffer \<longleftrightarrow> (\<forall>i<9. buffer ! (i + 9) = buffer ! (i + 18))"
  using assms by (auto simp: copy1_def copy2_def copy3_def list_eq_iff_nth_eq add.commute)

lemma find_upt_None: "find P [0..<n] = None \<longleftrightarrow> (\<forall>i<n. \<not> P i)"
  by (auto simp: find_None_iff)

lemma find_upt_Some: "find P [0..<n] = Some i \<Longrightarrow> i < n \<and> P i"
  by (auto simp: find_Some_iff)

text \<open>
  C4 (as amended). A received frame of three 9-byte copies is accepted if and only if all
  three copies agree or, failing that, two of the three agree (one of the pairwise
  comparisons 1-2, 1-3, 2-3 matches); the agreeing copy is then the decoded frame (the
  first copy, or the second when only the last two agree) and nothing is logged. When the
  copies are pairwise distinct the frame is rejected, the buffer is left as it is, and
  \<open>addError\<close> is called once with \<open>ERR_BAD_CMD\<close>; this adds one record when the error log
  is not full.
\<close>

theorem check_copies_vote:
  assumes "27 \<le> length buffer" "length (errors s) = MXERR"
  shows "case check_copies buffer s of (bad, buffer', s') \<Rightarrow>
     (\<not> bad \<longleftrightarrow> copy1 buffer = copy2 buffer \<or> copy1 buffer = copy3 buffer \<or> copy2 buffer = copy3 buffer) \<and>
     (\<not> bad \<longrightarrow> s' = s \<and> copy1 buffer' =
         (if copy1 buffer = copy2 buffer \<or> copy1 buffer = copy3 buffer then copy1 buffer else copy2 buffer)) \<and>
     (bad \<longrightarrow> buffer' = buffer \<and> (\<exists>i<9. s' = addError ERR_BAD_CMD (code (buffer ! (i + 9))) (of_nat i) s) \<and>
        (unat (nErrors s) < MXERR \<longrightarrow> unat (nErrors s') = unat (nErrors s) + 1 \<and>
            errorCode (errors s' ! unat (nErrors s)) = ERR_BAD_CMD))"
proof -
  note ce = copies_eq[OF assms(1)]
  let ?all = "find (\<lambda>i. buffer ! i \<noteq> buffer ! (i + 9) \<or> buffer ! i \<noteq> buffer ! (i + 18)) [0..<9]"
  let ?f12 = "find (\<lambda>i. buffer ! i \<noteq> buffer ! (i + 9)) [0..<9]"
  let ?f13 = "find (\<lambda>i. buffer ! i \<noteq> buffer ! (i + 18)) [0..<9]"
  let ?f23 = "find (\<lambda>i. buffer ! (i + 9) \<noteq> buffer ! (i + 18)) [0..<9]"
  have all: "?all = None \<longleftrightarrow> copy1 buffer = copy2 buffer \<and> copy1 buffer = copy3 buffer"
    unfolding find_upt_None ce by auto
  have f12: "?f12 = None \<longleftrightarrow> copy1 buffer = copy2 buffer" unfolding find_upt_None ce by auto
  have f13: "?f13 = None \<longleftrightarrow> copy1 buffer = copy3 buffer" unfolding find_upt_None ce by auto
  have f23: "?f23 = None \<longleftrightarrow> copy2 buffer = copy3 buffer" unfolding find_upt_None ce by auto
  consider (a) "?all = None" | (b) "?all \<noteq> None" "?f12 = None"
    | (c) "?all \<noteq> None" "?f12 \<noteq> None" "?f13 = None"
    | (d) "?all \<noteq> None" "?f12 \<noteq> None" "?f13 \<noteq> None" "?f23 = None"
    | (e) i where "?all \<noteq> None" "?f12 \<noteq> None" "?f13 \<noteq> None" "?f23 = Some i"
    by (cases ?f23) auto
  then show ?thesis
  proof cases
    case a
    then have "check_copies buffer s = (False, buffer, s)"
      by (simp only: check_copies_def if_True simp_thms)
    then show ?thesis using a all by simp
  next
    case b
    then have "check_copies buffer s = (False, buffer, s)"
      by (simp only: check_copies_def if_True if_False simp_thms)
    then show ?thesis using b f12 by simp
  next
    case c
    then have "check_copies buffer s = (False, buffer, s)"
      by (simp only: check_copies_def if_True if_False simp_thms)
    then show ?thesis using c f12 f13 by simp
  next
    case d
    let ?b = "fold (\<lambda>i b. b[i := b ! (i + 9)]) [0..<9] buffer"
    from d have r: "check_copies buffer s = (False, ?b, s)"
      by (simp only: check_copies_def if_False option.case option.distinct simp_thms)
    from copy_fold_nth[of 9 buffer] assms(1)
    have "length ?b = length buffer" "\<forall>k<length buffer. ?b ! k = (if k < 9 then buffer ! (k + 9) else buffer ! k)"
      by auto
    then have "copy1 ?b = copy2 buffer"
      using assms(1) by (auto simp: copy1_def copy2_def list_eq_iff_nth_eq add.commute)
    then show ?thesis using r d f12 f13 f23 by simp
  next
    case e
    let ?s = "addError ERR_BAD_CMD (code (buffer ! (i + 9))) (of_nat i) s"
    from e have r: "check_copies buffer s = (True, buffer, ?s)"
      by (simp only: check_copies_def if_False option.case option.distinct simp_thms)
    from e(4) have i: "i < 9" using find_upt_Some by fast
    from e have ne: "copy1 buffer \<noteq> copy2 buffer" "copy1 buffer \<noteq> copy3 buffer" "copy2 buffer \<noteq> copy3 buffer"
      using f12 f13 f23 by auto
    have log: "unat (nErrors ?s) = unat (nErrors s) + 1 \<and> errorCode (errors ?s ! unat (nErrors s)) = ERR_BAD_CMD"
      if "unat (nErrors s) < MXERR"
      using that assms(2) by (simp add: addError_def MXERR_def unat_word_ariths)
    show ?thesis unfolding r using i ne log by auto
  qed
qed

theorem check_copies_vote_witness:
  "27 \<le> length buf_all_differ \<and> length (errors s_init) = MXERR \<and>
   fst (check_copies buf_all_differ s_init) \<and>
   unat (nErrors (snd (snd (check_copies buf_all_differ s_init)))) = 1"
proof -
  have h: "27 \<le> length buf_all_differ" "length (errors s_init) = MXERR" by code_simp+
  have d: "copy1 buf_all_differ \<noteq> copy2 buf_all_differ" "copy1 buf_all_differ \<noteq> copy3 buf_all_differ"
     "copy2 buf_all_differ \<noteq> copy3 buf_all_differ" by code_simp+
  have n: "unat (nErrors s_init) < MXERR" "unat (nErrors s_init) = 0" by code_simp+
  obtain bad b' s' where r: "check_copies buf_all_differ s_init = (bad, b', s')"
    by (cases "check_copies buf_all_differ s_init") auto
  from check_copies_vote[OF h] r d n have "bad \<and> unat (nErrors s') = 1" by simp
  with h r show ?thesis by simp
qed

text \<open>The claim as stated fails when the error log is full: the three copies are pairwise
  distinct, the frame is rejected, and no fault is logged (the state is unchanged).\<close>

theorem check_copies_vote_counterexample:
  "unat (nErrors s_full) = MXERR \<and>
   copy1 buf_all_differ \<noteq> copy2 buf_all_differ \<and> copy1 buf_all_differ \<noteq> copy3 buf_all_differ \<and>
   copy2 buf_all_differ \<noteq> copy3 buf_all_differ \<and>
   check_copies buf_all_differ s_full = (True, buf_all_differ, s_full)"
  by code_simp

text \<open>Two agreeing copies are enough: here the first two copies agree, the third differs
  from both, and the frame is accepted.\<close>

lemma two_copies_agree_accepted:
  "\<not> fst (check_copies buf_two_agree s_init) \<and>
   copy1 buf_two_agree = copy2 buf_two_agree \<and> copy1 buf_two_agree \<noteq> copy3 buf_two_agree \<and>
   copy2 buf_two_agree \<noteq> copy3 buf_two_agree"
  by code_simp

text \<open>With the trigger enabled, every command code other than 0x3D and 0x44 is dropped with
  one call of \<open>addError\<close>; the handler is not run and \<open>nDataReady\<close> is not touched.\<close>

lemma gate_ignores:
  assumes "trgEnabled s" "command s \<noteq> 0x3D" "command s \<noteq> 0x44"
  shows "run_command other s = Inr (addError ERR_CMD_IGNORE (command s) 0 s)"
  using assms by (simp add: run_command_def)

lemma gate_ignores_nDataReady: "nDataReady (addError c v0 v1 s) = nDataReady s"
  by (simp add: addError_def)

text \<open>
  C3. With the trigger enabled, the disable-trigger command (0x3B with data byte 0, sent as
  two frames) is not honoured: the code logs \<open>ERR_CMD_IGNORE\<close> and the trigger stays
  enabled. The two codes let through by the gate are 0x44 (end run) and 0x3D, the
  trigger-status query, which is executed and answers with one byte.
\<close>

theorem gate_ignores_disable_trigger:
  "bindE (command_input other (in_buffer frame_3B frame_3B frame_3B) s_armed)
         (command_input other (in_buffer frame_data0 frame_data0 frame_data0))
     = Inr (addError ERR_CMD_IGNORE 0x3B 0
             (s_armed\<lparr>command := 0x3B, nDataBytes := 1, dCnt := 1, awaitingCommand := False, cmdDone := True\<rparr>))
   \<and> cmdData s_armed ! 0 = 0
   \<and> trgEnabled (addError ERR_CMD_IGNORE 0x3B 0
             (s_armed\<lparr>command := 0x3B, nDataBytes := 1, dCnt := 1, awaitingCommand := False, cmdDone := True\<rparr>))
   \<and> command_input other (in_buffer frame_3D frame_3D frame_3D) s_armed
     = Inr (s_armed\<lparr>command := 0x3D, awaitingCommand := False, cmdDone := True, nDataReady := 1,
                     dataOut := (dataOut s_armed)[0 := 1]\<rparr>)"
  by code_simp

text \<open>
  C10. On the state left by initialisation (write cursor of channel A at 0) the command
  0x35 with data byte 0, which selects channel A, reads \<open>tofA.filled\<close> at index 255,
  outside its 64 entries.
\<close>

theorem read_tof_cursor_zero:
  "ptr (tofA s_init) = 0 \<and> length (filled (tofA s_init)) = 64 \<and>
   bindE (command_input other (in_buffer frame_35 frame_35 frame_35) s_init)
         (command_input other (in_buffer frame_data0 frame_data0 frame_data0))
     = Inl (OutOfRange ''tofA.filled'' 255)"
  by code_simp

section \<open>Properties of the tracker reads\<close>

lemma result_at_polls [simp]:
  "result_at e startTime flag (s\<lparr>polls := q\<rparr>) p = result_at e startTime flag s p"
  by (simp add: result_at_def split: option.splits)

lemma tkr_getByte_spin:
  assumes "\<forall>i<k. \<not> exit_at e startTime (polls s + i)" "exit_at e startTime (polls s + k)"
  shows "tkr_getByte e startTime flag s = Some (result_at e startTime flag s (polls s + k))"
  using assms
proof (induction k arbitrary: s)
  case 0
  then show ?case
    by (subst tkr_getByte.simps) (auto simp: exit_at_def result_at_def Let_def split: option.splits)
next
  case (Suc k)
  let ?s = "s\<lparr>polls := polls s + 1\<rparr>"
  from Suc.prems(1) have "\<not> exit_at e startTime (polls s)" by (metis add_0_right zero_less_Suc)
  then have step: "tkr_getByte e startTime flag s = tkr_getByte e startTime flag ?s"
    by (subst tkr_getByte.simps) (auto simp: exit_at_def Let_def split: option.splits)
  have "\<forall>i<k. \<not> exit_at e startTime (polls ?s + i)"
  proof (intro allI impI)
    fix i assume "i < k"
    then have "\<not> exit_at e startTime (polls s + Suc i)" using Suc.prems(1) by (metis Suc_less_eq)
    then show "\<not> exit_at e startTime (polls ?s + i)" by simp
  qed
  moreover have "exit_at e startTime (polls ?s + k)" using Suc.prems(2) by simp
  ultimately have "tkr_getByte e startTime flag ?s = Some (result_at e startTime flag ?s (polls ?s + k))"
    by (rule Suc.IH)
  then show ?case unfolding step by simp
qed

lemma running_clock_expires:
  assumes step: "\<forall>p. clock e (Suc p) = clock e p \<or> clock e (Suc p) = clock e p + 1"
    and live: "\<forall>p. \<exists>q>p. clock e q \<noteq> clock e p"
  shows "\<exists>k. TKR_READ_TIMEOUT < clock e (p0 + k) - startTime"
proof (rule ccontr)
  assume "\<not> ?thesis"
  then have all: "clock e (p0 + k) - startTime \<le> 31" for k
    by (simp add: TKR_READ_TIMEOUT_def not_less)
  define el where "el k = unat (clock e (p0 + k) - startTime)" for k
  have le: "el k \<le> 31" for k
    using all[of k] by (simp add: el_def word_le_nat_alt)
  have suc: "el k \<le> el (Suc k)" for k
  proof -
    from step have "clock e (Suc (p0 + k)) = clock e (p0 + k) \<or> clock e (Suc (p0 + k)) = clock e (p0 + k) + 1"
      by blast
    then show ?thesis
    proof
      assume "clock e (Suc (p0 + k)) = clock e (p0 + k)"
      then show ?thesis by (simp add: el_def)
    next
      assume a: "clock e (Suc (p0 + k)) = clock e (p0 + k) + 1"
      have "el (Suc k) = unat (clock e (Suc (p0 + k)) - startTime)" by (simp add: el_def)
      also have "clock e (Suc (p0 + k)) - startTime = (clock e (p0 + k) - startTime) + 1"
        unfolding a by simp
      also have "unat ((clock e (p0 + k) - startTime) + 1) = unat (clock e (p0 + k) - startTime) + 1"
        using le[of k] by (simp add: el_def unat_word_ariths)
      finally show ?thesis by (simp add: el_def)
    qed
  qed
  have mono: "el k \<le> el k'" if "k \<le> k'" for k k'
    using that by (rule lift_Suc_mono_le[of el, OF suc])
  have grow: "\<exists>k. n \<le> el k" for n
  proof (induction n)
    case 0
    show ?case by simp
  next
    case (Suc n)
    then obtain k where k: "n \<le> el k" by blast
    from live obtain q where q: "q > p0 + k" "clock e q \<noteq> clock e (p0 + k)" by blast
    define k' where "k' = q - p0"
    have k': "k \<le> k'" "p0 + k' = q" using q(1) by (simp_all add: k'_def)
    have "clock e (p0 + k') - startTime \<noteq> clock e (p0 + k) - startTime" using q(2) k'(2) by simp
    then have "el k' \<noteq> el k" unfolding el_def by (simp add: word_unat_eq_iff)
    with mono[OF k'(1)] k have "Suc n \<le> el k'" by linarith
    then show ?case by blast
  qed
  from grow[of 32] obtain k where "32 \<le> el k" by blast
  with le[of k] show False by simp
qed

lemma tkr_getByte_keeps:
  assumes "tkr_getByte e startTime flag s = Some y"
  shows "keeps s (snd y)"
proof (rule tkr_getByte.raw_induct[where P = "\<lambda>e startTime flag s y. keeps s (snd y)", OF _ assms])
  fix f and e :: env and startTime :: u32 and flag :: u8 and s :: daq and y :: "u8 \<times> daq"
  assume IH: "\<And>e startTime flag s y. f e startTime flag s = Some y \<Longrightarrow> keeps s (snd y)"
    and eq: "(case rx e (polls s) of
        None \<Rightarrow>
          (let timeElapsed = clock e (polls s) - startTime in
           if timeElapsed > TKR_READ_TIMEOUT
           then Some (0x00, addError ERR_TKR_READ_TIMEOUT (ucast (timeElapsed AND 0x000000ff)) flag
                              (s\<lparr>polls := polls s + 1\<rparr>))
           else f e startTime flag (s\<lparr>polls := polls s + 1\<rparr>))
      | Some b \<Rightarrow> Some (b, s\<lparr>polls := polls s + 1\<rparr>)) = Some y"
  show "keeps s (snd y)"
  proof (cases "rx e (polls s)")
    case (Some b)
    with eq show ?thesis by (auto simp: keeps_def)
  next
    case None
    show ?thesis
    proof (cases "TKR_READ_TIMEOUT < clock e (polls s) - startTime")
      case True
      with None eq show ?thesis by (auto simp: keeps_def Let_def addError_def)
    next
      case False
      with None eq have "f e startTime flag (s\<lparr>polls := polls s + 1\<rparr>) = Some y"
        by (simp add: Let_def)
      from IH[OF this] show ?thesis by (simp add: keeps_def)
    qed
  qed
qed

lemma placeholder_bytes:
  "(replicate 5 (0::u8))[0 := a, Suc 0 := b, 2 := c, 3 := d, 4 := e] = [a, b, c, d, e]"
  by (simp add: eval_nat_numeral)

lemma empty_lists_ok:
  assumes "n \<le> length (boardHits s)" "\<forall>k. heap_ok e k"
  shows "\<exists>bs. forE [0..<n] (empty_hit_list e tag) s = Inr (s\<lparr>mallocs := mallocs s + n, boardHits := bs\<rparr>)
     \<and> length bs = length (boardHits s)
     \<and> (\<forall>brd<n. bs ! brd = \<lparr>nBytes = 5, hitList = Some [0xE7, of_nat brd, 0, tag, 0x30]\<rparr>)"
  using assms(1)
proof (induction n)
  case 0
  show ?case by (intro exI[of _ "boardHits s"]) simp
next
  case (Suc n)
  then obtain bs where bs: "forE [0..<n] (empty_hit_list e tag) s = Inr (s\<lparr>mallocs := mallocs s + n, boardHits := bs\<rparr>)"
     "length bs = length (boardHits s)"
     "\<forall>brd<n. bs ! brd = \<lparr>nBytes = 5, hitList = Some [0xE7, of_nat brd, 0, tag, 0x30]\<rparr>" by auto
  let ?s = "s\<lparr>mallocs := mallocs s + n, boardHits := bs\<rparr>"
  let ?bs = "bs[n := \<lparr>nBytes = 5, hitList = Some [0xE7, of_nat n, 0, tag, 0x30]\<rparr>]"
  have "empty_hit_list e tag n ?s = Inr (s\<lparr>mallocs := mallocs s + Suc n, boardHits := ?bs\<rparr>)"
    using assms(2) Suc.prems bs(2)
    by (simp add: empty_hit_list_def malloc_def set_board_def wr_def placeholder_bytes)
  then have "forE [0..<Suc n] (empty_hit_list e tag) s = Inr (s\<lparr>mallocs := mallocs s + Suc n, boardHits := ?bs\<rparr>)"
    by (simp add: forE_append bs(1))
  moreover have "length ?bs = length (boardHits s)" using bs(2) by simp
  moreover have "\<forall>brd<Suc n. ?bs ! brd = \<lparr>nBytes = 5, hitList = Some [0xE7, of_nat brd, 0, tag, 0x30]\<rparr>"
    using bs(2,3) Suc.prems by (auto simp: nth_list_update less_Suc_eq)
  ultimately show ?case by blast
qed

lemma bindIO_Some [simp]: "bindIO (Some (Inr (x, s))) f = f x s"
  by (simp add: bindIO_def)

text \<open>Whenever some poll offers a byte or shows an expired time-out, \<open>tkr_getByte\<close> returns
  at the first such poll.\<close>

lemma tkr_getByte_first_exit:
  assumes "\<exists>k. rx e (polls s + k) \<noteq> None \<or> TKR_READ_TIMEOUT < clock e (polls s + k) - startTime"
  shows "\<exists>k b s'. tkr_getByte e startTime flag s = Some (b, s') \<and>
     (\<forall>i<k. rx e (polls s + i) = None \<and> clock e (polls s + i) - startTime \<le> TKR_READ_TIMEOUT) \<and>
     (case rx e (polls s + k) of
        Some c \<Rightarrow> b = c \<and> s' = s\<lparr>polls := polls s + k + 1\<rparr>
      | None \<Rightarrow> TKR_READ_TIMEOUT < clock e (polls s + k) - startTime \<and> b = 0x00 \<and>
          s' = addError ERR_TKR_READ_TIMEOUT (ucast ((clock e (polls s + k) - startTime) AND 0x000000ff)) flag
                 (s\<lparr>polls := polls s + k + 1\<rparr>))"
proof -
  from assms have ex: "\<exists>k. exit_at e startTime (polls s + k)" by (simp add: exit_at_def)
  define k where "k = (LEAST k. exit_at e startTime (polls s + k))"
  have k: "exit_at e startTime (polls s + k)" unfolding k_def using ex by (rule LeastI_ex)
  have before: "\<forall>i<k. \<not> exit_at e startTime (polls s + i)"
    unfolding k_def using not_less_Least by blast
  from tkr_getByte_spin[OF before k]
  have r: "tkr_getByte e startTime flag s = Some (result_at e startTime flag s (polls s + k))" .
  have 1: "\<forall>i<k. rx e (polls s + i) = None \<and> clock e (polls s + i) - startTime \<le> TKR_READ_TIMEOUT"
    using before by (auto simp: exit_at_def not_less)
  show ?thesis
  proof (cases "rx e (polls s + k)")
    case None
    with k have "TKR_READ_TIMEOUT < clock e (polls s + k) - startTime" by (simp add: exit_at_def)
    with r 1 None show ?thesis
      by (intro exI[of _ k]) (simp add: result_at_def)
  next
    case (Some c)
    with r 1 show ?thesis by (intro exI[of _ k]) (simp add: result_at_def)
  qed
qed

text \<open>Conversely, a call that returns has met a poll that offers a byte or shows an expired
  time-out.\<close>

lemma tkr_getByte_Some_exit:
  assumes "tkr_getByte e startTime flag s = Some y"
  shows "\<exists>k. exit_at e startTime (polls s + k)"
proof (rule tkr_getByte.raw_induct[where P = "\<lambda>e startTime flag s y. \<exists>k. exit_at e startTime (polls s + k)", OF _ assms])
  fix f and e :: env and startTime :: u32 and flag :: u8 and s :: daq and y :: "u8 \<times> daq"
  assume IH: "\<And>e startTime flag s y. f e startTime flag s = Some y \<Longrightarrow> \<exists>k. exit_at e startTime (polls s + k)"
    and eq: "(case rx e (polls s) of
        None \<Rightarrow>
          (let timeElapsed = clock e (polls s) - startTime in
           if timeElapsed > TKR_READ_TIMEOUT
           then Some (0x00, addError ERR_TKR_READ_TIMEOUT (ucast (timeElapsed AND 0x000000ff)) flag
                              (s\<lparr>polls := polls s + 1\<rparr>))
           else f e startTime flag (s\<lparr>polls := polls s + 1\<rparr>))
      | Some b \<Rightarrow> Some (b, s\<lparr>polls := polls s + 1\<rparr>)) = Some y"
  show "\<exists>k. exit_at e startTime (polls s + k)"
  proof (cases "exit_at e startTime (polls s)")
    case True
    then have "exit_at e startTime (polls s + 0)" by simp
    then show ?thesis by blast
  next
    case False
    then have "rx e (polls s) = None" "\<not> TKR_READ_TIMEOUT < clock e (polls s) - startTime"
      by (auto simp: exit_at_def)
    with eq have "f e startTime flag (s\<lparr>polls := polls s + 1\<rparr>) = Some y" by (simp add: Let_def)
    from IH[OF this] obtain k where "exit_at e startTime (polls s + 1 + k)" by auto
    then have "exit_at e startTime (polls s + (1 + k))" by (simp add: add.assoc)
    then show ?thesis by blast
  qed
qed

text \<open>
  C7 (as amended). Provided the tick counter keeps running (each poll reads it unchanged or
  one tick further than the poll before, and it never stays unchanged for ever), every call
  of \<open>tkr_getByte\<close> returns. It returns at the first poll that finds a byte waiting or
  an elapsed time since \<open>startTime\<close> above \<open>TKR_READ_TIMEOUT\<close>; at every poll before, the
  FIFO was empty and the elapsed time at most \<open>TKR_READ_TIMEOUT\<close>. If a byte is waiting it
  is returned and nothing is logged; otherwise 0x00 is returned after one call of
  \<open>addError\<close> with \<open>ERR_TKR_READ_TIMEOUT\<close>, which adds one record when the error log is not
  full.
\<close>

theorem tkr_getByte_returns:
  assumes step: "\<forall>p. clock e (Suc p) = clock e p \<or> clock e (Suc p) = clock e p + 1"
    and live: "\<forall>p. \<exists>q>p. clock e q \<noteq> clock e p"
  shows "\<exists>k b s'. tkr_getByte e startTime flag s = Some (b, s') \<and>
     (\<forall>i<k. rx e (polls s + i) = None \<and> clock e (polls s + i) - startTime \<le> TKR_READ_TIMEOUT) \<and>
     (case rx e (polls s + k) of
        Some c \<Rightarrow> b = c \<and> s' = s\<lparr>polls := polls s + k + 1\<rparr>
      | None \<Rightarrow> TKR_READ_TIMEOUT < clock e (polls s + k) - startTime \<and> b = 0x00 \<and>
          s' = addError ERR_TKR_READ_TIMEOUT (ucast ((clock e (polls s + k) - startTime) AND 0x000000ff)) flag
                 (s\<lparr>polls := polls s + k + 1\<rparr>))"
proof -
  from running_clock_expires[OF step live, of "polls s" startTime]
  have "\<exists>k. rx e (polls s + k) \<noteq> None \<or> TKR_READ_TIMEOUT < clock e (polls s + k) - startTime"
    by blast
  then show ?thesis by (rule tkr_getByte_first_exit)
qed

theorem tkr_getByte_returns_witness:
  "(\<forall>p. clock e_silent (Suc p) = clock e_silent p \<or> clock e_silent (Suc p) = clock e_silent p + 1) \<and>
   (\<forall>p. \<exists>q>p. clock e_silent q \<noteq> clock e_silent p) \<and>
   (\<exists>s'. tkr_getByte e_silent 0 1 s_init = Some (0x00, s') \<and> unat (nErrors s') = 1)"
proof -
  have rx: "rx e_silent p = None" for p by (simp add: e_silent_def)
  have step: "\<forall>p. clock e_silent (Suc p) = clock e_silent p \<or> clock e_silent (Suc p) = clock e_silent p + 1"
    by (simp add: e_silent_def)
  have live: "\<forall>p. \<exists>q>p. clock e_silent q \<noteq> clock e_silent p"
  proof
    fix p
    have "clock e_silent (Suc p) \<noteq> clock e_silent p" by (simp add: e_silent_def)
    then show "\<exists>q>p. clock e_silent q \<noteq> clock e_silent p" by blast
  qed
  from tkr_getByte_returns[OF step live, of 0 1 s_init] obtain k b s' where
    r: "tkr_getByte e_silent 0 1 s_init = Some (b, s')"
    and c: "case rx e_silent (polls s_init + k) of
        Some c \<Rightarrow> b = c \<and> s' = s_init\<lparr>polls := polls s_init + k + 1\<rparr>
      | None \<Rightarrow> TKR_READ_TIMEOUT < clock e_silent (polls s_init + k) - 0 \<and> b = 0x00 \<and>
          s' = addError ERR_TKR_READ_TIMEOUT (ucast ((clock e_silent (polls s_init + k) - 0) AND 0x000000ff)) 1
                 (s_init\<lparr>polls := polls s_init + k + 1\<rparr>)"
    by blast
  from c have "b = 0x00 \<and> unat (nErrors s') = 1"
    by (simp add: rx addError_def s_init_def MXERR_def)
  with r step live show ?thesis by blast
qed

text \<open>The claim as stated fails. With a silent UART and a tick counter that stands still the
  loop of lines 547-554 never leaves: the call does not return. And with a full error log
  a time-out returns 0x00 without logging a fault (here at the 33rd poll, the first with an
  elapsed time above 31).\<close>

theorem tkr_getByte_returns_counterexample:
  "tkr_getByte e_stuck 0 1 s_init = None \<and>
   tkr_getByte e_silent 0 1 s_full = Some (0x00, s_full\<lparr>polls := 33\<rparr>)"
proof
  show "tkr_getByte e_stuck 0 1 s_init = None"
  proof (cases "tkr_getByte e_stuck 0 1 s_init")
    case None
    then show ?thesis .
  next
    case (Some y)
    from tkr_getByte_Some_exit[OF this] obtain k where "exit_at e_stuck 0 (polls s_init + k)" by blast
    then have False by (simp add: exit_at_def e_stuck_def TKR_READ_TIMEOUT_def)
    then show ?thesis ..
  qed
  show "tkr_getByte e_silent 0 1 s_full = Some (0x00, s_full\<lparr>polls := 33\<rparr>)"
    by code_simp
qed

text \<open>
  C6 (as amended). \<open>getTrackerData\<close> is called expecting event data with at most
  \<open>MAX_TKR_BOARDS\<close> boards configured, the two header reads return a declared length
  other than 5 and the identifier 0xD3, the log is not full at that point and every
  allocation succeeds. Then the call logs one \<open>ERR_TKR_BAD_LENGTH\<close> record (identifier,
  length), sets trigger count, command count and pattern to zero and the board count to the
  configured number, gives each board the 5-byte hit list 0xE7, board number, 0, 0x02, 0x30,
  and returns 55 without polling the UART again.
\<close>

theorem bad_length_event:
  assumes hdr1: "tkr_getByte e (clock e (polls s)) 1 (s\<lparr>polls := polls s + 1\<rparr>) = Some (len, s2)"
    and hdr2: "tkr_getByte e (clock e (polls s)) 2 s2 = Some (TKR_EVT_DATA, s3)"
    and len: "len \<noteq> 5"
    and room: "unat (nErrors s3) < MXERR"
    and heap: "\<forall>k. heap_ok e k"
    and brds: "unat (numTkrBrds s) \<le> MAX_TKR_BOARDS" "length (boardHits s) = MAX_TKR_BOARDS"
    and log: "length (errors s) = MXERR"
  shows "\<exists>s'. getTrackerData e TKR_EVT_DATA s = Some (Inr (55, s')) \<and>
     unat (nErrors s') = unat (nErrors s3) + 1 \<and>
     errors s' = (errors s3)[unat (nErrors s3) :=
                    \<lparr>errorCode = ERR_TKR_BAD_LENGTH, value0 = TKR_EVT_DATA, value1 = len\<rparr>] \<and>
     triggerCount s' = 0 \<and> cmdCount s' = 0 \<and> trgPattern s' = 0 \<and>
     nTkrBoards s' = numTkrBrds s \<and>
     (\<forall>brd<unat (numTkrBrds s).
        boardHits s' ! brd = \<lparr>nBytes = 5, hitList = Some [0xE7, of_nat brd, 0, 0x02, 0x30]\<rparr>) \<and>
     polls s' = polls s3"
proof -
  from tkr_getByte_keeps[OF hdr1] have k2: "keeps s s2" by (simp add: keeps_def)
  from tkr_getByte_keeps[OF hdr2] have k3: "keeps s2 s3" by simp
  from k2 k3 have k: "numTkrBrds s3 = numTkrBrds s" "boardHits s3 = boardHits s"
    "length (errors s3) = length (errors s)" by (simp_all add: keeps_def)
  let ?s4 = "addError ERR_TKR_BAD_LENGTH TKR_EVT_DATA len s3"
  let ?s5 = "?s4\<lparr>triggerCount := 0, cmdCount := 0, trgPattern := 0, nTkrBoards := numTkrBrds ?s4\<rparr>"
  have s4: "numTkrBrds ?s4 = numTkrBrds s" "boardHits ?s4 = boardHits s"
    "unat (nErrors ?s4) = unat (nErrors s3) + 1"
    "errors ?s4 = (errors s3)[unat (nErrors s3) :=
                    \<lparr>errorCode = ERR_TKR_BAD_LENGTH, value0 = TKR_EVT_DATA, value1 = len\<rparr>]"
    "polls ?s4 = polls s3"
    using room k by (simp_all add: addError_def MXERR_def unat_word_ariths)
  have n: "unat (numTkrBrds ?s5) \<le> length (boardHits ?s5)"
    using brds s4 by simp
  from empty_lists_ok[OF n heap, where tag = "0x02"] obtain bs where
    bs: "forE [0..<unat (numTkrBrds ?s5)] (empty_hit_list e 0x02) ?s5
           = Inr (?s5\<lparr>mallocs := mallocs ?s5 + unat (numTkrBrds ?s5), boardHits := bs\<rparr>)"
       "\<forall>brd<unat (numTkrBrds ?s5). bs ! brd = \<lparr>nBytes = 5, hitList = Some [0xE7, of_nat brd, 0, 0x02, 0x30]\<rparr>"
    by blast
  let ?s' = "?s5\<lparr>mallocs := mallocs ?s5 + unat (numTkrBrds ?s5), boardHits := bs\<rparr>"
  have de: "default_event e 0x02 ?s4 = Inr ?s'"
    unfolding default_event_def using bs(1) by simp
  have "getTrackerData e TKR_EVT_DATA s = tkr_packet e (clock e (polls s)) len TKR_EVT_DATA s3"
    using hdr1 hdr2 by (simp add: getTrackerData_def Let_def getByte_def)
  also have "\<dots> = Some (Inr (55, ?s'))"
    using len by (simp add: tkr_packet_def tkr_event_def de liftIO_def)
  finally have r: "getTrackerData e TKR_EVT_DATA s = Some (Inr (55, ?s'))" .
  show ?thesis
    using r s4 bs(2) by (intro exI[of _ ?s']) simp
qed

theorem bad_length_event_witness:
  "\<exists>s'. getTrackerData e_badlen TKR_EVT_DATA s_init = Some (Inr (55, s')) \<and>
     unat (nErrors s') = 1 \<and> nTkrBoards s' = 1 \<and>
     boardHits s' ! 0 = \<lparr>nBytes = 5, hitList = Some [0xE7, 0, 0, 0x02, 0x30]\<rparr>"
proof -
  have hdr1: "tkr_getByte e_badlen (clock e_badlen (polls s_init)) 1 (s_init\<lparr>polls := polls s_init + 1\<rparr>)
       = Some (7, s_init\<lparr>polls := 4\<rparr>)" by code_simp
  have hdr2: "tkr_getByte e_badlen (clock e_badlen (polls s_init)) 2 (s_init\<lparr>polls := 4\<rparr>)
       = Some (TKR_EVT_DATA, s_init\<lparr>polls := 5\<rparr>)" by code_simp
  have len: "(7 :: u8) \<noteq> 5" by simp
  have room: "unat (nErrors (s_init\<lparr>polls := 5\<rparr>)) < MXERR" by code_simp
  have heap: "\<forall>k. heap_ok e_badlen k" by (simp add: e_badlen_def)
  have brds: "unat (numTkrBrds s_init) \<le> MAX_TKR_BOARDS" "length (boardHits s_init) = MAX_TKR_BOARDS"
    by code_simp+
  have log: "length (errors s_init) = MXERR" by code_simp
  have n: "unat (numTkrBrds s_init) = 1" "numTkrBrds s_init = 1" "unat (nErrors (s_init\<lparr>polls := 5\<rparr>)) = 0"
    by code_simp+
  from bad_length_event[OF hdr1 hdr2 len room heap brds log] n
  show ?thesis by auto
qed

text \<open>The claim as stated fails with nine boards configured: nothing bounds \<open>numTkrBrds\<close>
  (line 1973 stores the command's data byte as it comes), the loop of line 643 runs up to
  board 8, and \<open>tkrData.boardHits[8]\<close> lies outside the array of \<open>MAX_TKR_BOARDS\<close>
  entries.\<close>

theorem bad_length_event_counterexample:
  "getTrackerData e_badlen TKR_EVT_DATA s_nine = Some (Inl (OutOfRange ''tkrData.boardHits'' 8))"
  by code_simp

section \<open>Properties of the event serialisation\<close>

lemma put_ok:
  assumes "length (dataOut s) = 256"
  shows "\<exists>s'. put v s = Inr s' \<and> out_step s s'"
proof -
  have "uint (nDataReady s) < 256" using uint_bounded[of "nDataReady s"] by simp
  then show ?thesis using assms by (simp add: put_def wr_def out_step_def)
qed

lemma putAll_ok:
  assumes "length (dataOut s) = 256"
  shows "\<exists>s'. putAll vs s = Inr s' \<and> out_step s s'"
  using assms
proof (induction vs arbitrary: s)
  case Nil
  show ?case by (simp add: out_step_def)
next
  case (Cons v vs)
  from put_ok[OF Cons.prems, of v] obtain s1 where s1: "put v s = Inr s1" "out_step s s1" by blast
  then have "length (dataOut s1) = 256" using Cons.prems by (simp add: out_step_def)
  from Cons.IH[OF this] obtain s' where "putAll vs s1 = Inr s'" "out_step s1 s'" by blast
  with s1 show ?case by (auto simp: out_step_def)
qed

lemma hits_ok:
  assumes "length (dataOut s) = 256" "\<forall>b\<in>set xs. b < length hl"
  shows "\<exists>s'. forE xs (hit_out hl) s = Inr s' \<and> out_step s s'"
  using assms
proof (induction xs arbitrary: s)
  case Nil
  show ?case by (simp add: out_step_def)
next
  case (Cons b xs)
  from put_ok[OF Cons.prems(1), of "hl ! b"] obtain s1 where s1: "put (hl ! b) s = Inr s1" "out_step s s1" by blast
  have h: "hit_out hl b s = Inr s1" using Cons.prems(2) s1(1) by (simp add: hit_out_def rd_def)
  have "length (dataOut s1) = 256" using s1(2) Cons.prems(1) by (simp add: out_step_def)
  from Cons.IH[OF this] Cons.prems(2) obtain s' where "forE xs (hit_out hl) s1 = Inr s'" "out_step s1 s'" by auto
  with s1 h show ?case by (auto simp: out_step_def)
qed

lemma board_out_ok:
  assumes "length (dataOut s) = 256" "brd < length (boardHits s)" "board_ok (boardHits s ! brd)"
  shows "\<exists>brk s'. board_out brd s = Inr (brk, s') \<and> length (dataOut s') = 256
     \<and> length (boardHits s') = length (boardHits s)
     \<and> (\<forall>k. k \<noteq> brd \<longrightarrow> boardHits s' ! k = boardHits s ! k)"
proof -
  let ?bh = "boardHits s ! brd"
  have rdb: "rd ''tkrData.boardHits'' (boardHits s) (int brd) = Inr ?bh" using assms(2) by (simp add: rd_def)
  show ?thesis
  proof (cases "uint (nDataReady s) > int MAX_DATA_OUT - (5 + uint (nBytes ?bh))")
    case True
    then have "board_out brd s = Inr (True, addError ERR_EVT_TOO_BIG (dataOut s ! 6) (dataOut s ! 10) s)"
      by (simp add: board_out_def rdb)
    moreover have "dataOut (addError ERR_EVT_TOO_BIG (dataOut s ! 6) (dataOut s ! 10) s) = dataOut s"
      "boardHits (addError ERR_EVT_TOO_BIG (dataOut s ! 6) (dataOut s ! 10) s) = boardHits s"
      by (simp_all add: addError_def)
    ultimately show ?thesis using assms(1)
      by (intro exI[of _ True] exI[of _ "addError ERR_EVT_TOO_BIG (dataOut s ! 6) (dataOut s ! 10) s"]) simp
  next
    case False
    from put_ok[OF assms(1), of "of_nat brd"] obtain s1 where
      s1: "put (of_nat brd) s = Inr s1" "out_step s s1" by blast
    then have l1: "length (dataOut s1) = 256" using assms(1) by (simp add: out_step_def)
    show ?thesis
    proof (cases "hitList ?bh")
      case None
      from putAll_ok[OF l1, of "[5, 0xE7, of_nat brd, 0, 0x07, 0x30]"] obtain s2 where
        s2: "putAll [5, 0xE7, of_nat brd, 0, 0x07, 0x30] s1 = Inr s2" "out_step s1 s2" by blast
      have "board_out brd s = Inr (False, s2)"
        using False None s1(1) s2(1) by (simp add: board_out_def rdb)
      moreover have "length (dataOut s2) = 256" "boardHits s2 = boardHits s"
        using s1(2) s2(2) l1 by (simp_all add: out_step_def)
      ultimately show ?thesis by (intro exI[of _ False] exI[of _ s2]) simp
    next
      case (Some hl)
      from put_ok[OF l1, of "nBytes ?bh"] obtain s2 where
        s2: "put (nBytes ?bh) s1 = Inr s2" "out_step s1 s2" by blast
      then have l2: "length (dataOut s2) = 256" using l1 by (simp add: out_step_def)
      have "\<forall>b\<in>set [0..<unat (nBytes ?bh)]. b < length hl"
        using assms(3) Some by (simp add: board_ok_def)
      from hits_ok[OF l2 this] obtain s3 where
        s3: "forE [0..<unat (nBytes ?bh)] (hit_out hl) s2 = Inr s3" "out_step s2 s3" by blast
      have b3: "boardHits s3 = boardHits s" "length (dataOut s3) = 256"
        using s1(2) s2(2) s3(2) l2 by (simp_all add: out_step_def)
      let ?s4 = "s3\<lparr>boardHits := (boardHits s)[brd := ?bh\<lparr>nBytes := 0\<rparr>]\<rparr>"
      have sb: "set_board brd (?bh\<lparr>nBytes := 0\<rparr>) s3 = Inr ?s4"
        using assms(2) b3 by (simp add: set_board_def wr_def)
      have "board_out brd s = Inr (False, ?s4)"
        using False Some s1(1) s2(1) s3(1) sb by (simp add: board_out_def rdb)
      moreover have "length (dataOut ?s4) = 256" "length (boardHits ?s4) = length (boardHits s)"
        "\<forall>k. k \<noteq> brd \<longrightarrow> boardHits ?s4 ! k = boardHits s ! k"
        using b3 by simp_all
      ultimately show ?thesis by (intro exI[of _ False] exI[of _ ?s4]) simp
    qed
  qed
qed

lemma forB_ok:
  assumes "length (dataOut s) = 256" "distinct xs" "\<forall>b\<in>set xs. b < length (boardHits s) \<and> board_ok (boardHits s ! b)"
  shows "\<exists>s'. forB xs board_out s = Inr s' \<and> length (dataOut s') = 256"
  using assms
proof (induction xs arbitrary: s)
  case Nil
  then show ?case by simp
next
  case (Cons b xs)
  from Cons.prems have b: "b < length (boardHits s)" "board_ok (boardHits s ! b)" by auto
  from board_out_ok[OF Cons.prems(1) b] obtain brk s1 where
    s1: "board_out b s = Inr (brk, s1)" "length (dataOut s1) = 256"
        "length (boardHits s1) = length (boardHits s)"
        "\<forall>k. k \<noteq> b \<longrightarrow> boardHits s1 ! k = boardHits s ! k" by blast
  show ?case
  proof (cases brk)
    case True
    with s1 show ?thesis by simp
  next
    case False
    have "\<forall>k\<in>set xs. k < length (boardHits s1) \<and> board_ok (boardHits s1 ! k)"
      using Cons.prems(2,3) s1(3,4) by auto
    from Cons.IH[OF s1(2) _ this] Cons.prems(2) obtain s' where
      "forB xs board_out s1 = Inr s'" "length (dataOut s') = 256" by auto
    with s1(1) False show ?thesis by simp
  qed
qed

text \<open>The time of flight in the event record: bytes 35 and 36 are the high and the low byte
  of \<open>dtmin\<close>.\<close>

lemma byte16_split: "unat (byte16 w 0) = unat w div 256 \<and> unat (byte16 w 1) = unat w mod 256"
proof -
  have lt: "unat w < 65536" using unsigned_less[of w, where ?'a = nat] by simp
  have m: "(0x00FF :: u16) = mask 8" by (simp add: mask_eq_exp_minus_1)
  have "drop_bit 8 (0xFF00 :: u16) = mask 8"
    by (simp add: mask_eq_exp_minus_1 drop_bit_eq_div word_div_def)
  then have "drop_bit 8 (w AND 0xFF00) = take_bit 8 (drop_bit 8 w)"
    by (simp add: take_bit_eq_mask)
  also have "\<dots> = drop_bit 8 w"
    by (rule bit_word_eqI) (auto simp: bit_take_bit_iff bit_drop_bit_eq dest: bit_imp_le_length)
  finally have "drop_bit 8 (w AND 0xFF00) = drop_bit 8 w" .
  then have 0: "unat (byte16 w 0) = unat w div 256"
    using lt by (simp add: byte16_def unsigned_ucast_eq unat_drop_bit_eq drop_bit_eq_div take_bit_eq_mod unat_div)
  have 1: "unat (byte16 w 1) = unat w mod 256"
    unfolding byte16_def by (simp add: m unsigned_ucast_eq take_bit_eq_mod unat_mod flip: take_bit_eq_mask)
  from 0 1 show ?thesis by simp
qed

lemma tof_field_in_event:
  "event_header h nI c s ! 35 = byte16 (dtmin c) 0 \<and> event_header h nI c s ! 36 = byte16 (dtmin c) 1
   \<and> unat (byte16 (dtmin c) 0) * 256 + unat (byte16 (dtmin c) 1) = unat (dtmin c)"
  using byte16_split[of "dtmin c"] by (simp add: event_header_def)

text \<open>With at most 8 boards and hit lists of at most 203 bytes the serialiser reads and
  writes no array out of range. For \<open>dataOut\<close> this follows from the index \<open>nDataReady\<close>
  being a \<open>uint8\<close> (main.c 162), whatever the guard of line 1590 does.\<close>

lemma build_event_no_fault:
  assumes "tkr_ok s"
  shows "\<exists>s'. build_event h nI c s = Inr s' \<and> length (dataOut s') = MAX_DATA_OUT
     \<and> unat (nDataReady s') \<le> MAX_DATA_OUT"
proof -
  from assms have l: "length (dataOut s) = 256" "length (boardHits s) = 8" "unat (nTkrBoards s) \<le> 8"
    and ok: "list_all board_ok (take (unat (nTkrBoards s)) (boardHits s))"
    by (simp_all add: tkr_ok_def MAX_DATA_OUT_def MAX_TKR_BOARDS_def)
  let ?s1 = "s\<lparr>dataOut := event_header h nI c s @ drop 52 (dataOut s), nDataReady := 52\<rparr>"
  have l1: "length (dataOut ?s1) = 256" using l(1) by (simp add: event_header_def)
  have "\<forall>b\<in>set [0..<unat (nTkrBoards ?s1)]. b < length (boardHits ?s1) \<and> board_ok (boardHits ?s1 ! b)"
  proof
    fix b assume "b \<in> set [0..<unat (nTkrBoards ?s1)]"
    then have b: "b < unat (nTkrBoards s)" by simp
    then have "b < length (take (unat (nTkrBoards s)) (boardHits s))" using l by simp
    with ok have "board_ok (take (unat (nTkrBoards s)) (boardHits s) ! b)" by (simp add: list_all_length)
    with b l show "b < length (boardHits ?s1) \<and> board_ok (boardHits ?s1 ! b)" by simp
  qed
  from forB_ok[OF l1 _ this] obtain s2 where
    s2: "forB [0..<unat (nTkrBoards ?s1)] board_out ?s1 = Inr s2" "length (dataOut s2) = 256" by auto
  from putAll_ok[OF s2(2), of "[0x46, 0x49, 0x4E, 0x49]"] obtain s' where
    s': "putAll [0x46, 0x49, 0x4E, 0x49] s2 = Inr s'" "out_step s2 s'" by blast
  have "build_event h nI c s = Inr s'" using s2(1) s'(1) by (simp add: build_event_def Let_def)
  moreover have "length (dataOut s') = MAX_DATA_OUT" using s'(2) s2(2) by (simp add: out_step_def MAX_DATA_OUT_def)
  moreover have "unat (nDataReady s') \<le> MAX_DATA_OUT"
    using unsigned_less[of "nDataReady s'", where ?'a = nat] by (simp add: MAX_DATA_OUT_def)
  ultimately show ?thesis by blast
qed

text \<open>
  C9. The claim asks that, for up to 8 boards with hit lists of up to 203 bytes each, every
  byte of the event (52-byte header, the boards, the 4-byte trailer) is stored in
  \<open>dataOut\<close> below index 256 and that \<open>nDataReady\<close> never exceeds \<open>MAX_DATA_OUT\<close>. The
  code does not achieve this. The guard of line 1590 admits a board when
  \<open>nDataReady \<le> MAX_DATA_OUT - (5 + nBytes)\<close>, which after the board's address, length
  and hit list leaves three bytes, and the trailer has four. With one board of 199 hit
  bytes the guard passes at \<open>nDataReady = 52\<close>, the board ends at index 252, the trailer
  bytes 0x46, 0x49, 0x4E go to 253, 254, 255, the counter wraps, and the last trailer byte
  0x49 is written over the first header byte 0x5A at \<open>dataOut[0]\<close>; \<open>nDataReady\<close> ends at 1
  for an event of 257 bytes, and no \<open>ERR_EVT_TOO_BIG\<close> is logged.
\<close>

theorem build_event_trailer_wraps:
  "unat (nTkrBoards s_big) = 1 \<and> unat (nBytes (boardHits s_big ! 0)) = 199 \<and>
   event_header hdr0 0 corr_init s_big ! 0 = 0x5A \<and>
   (case build_event hdr0 0 corr_init s_big of
      Inr s \<Rightarrow> nDataReady s = 1 \<and> dataOut s ! 0 = 0x49 \<and> dataOut s ! 252 = 0xAA \<and>
        dataOut s ! 253 = 0x46 \<and> dataOut s ! 254 = 0x49 \<and> dataOut s ! 255 = 0x4E \<and>
        nErrors s = nErrors s_big
    | Inl f \<Rightarrow> False)"
  by code_simp

text \<open>The input of this evaluation is within the range the claim speaks of.\<close>

lemma s_big_in_range: "tkr_ok s_big"
  by code_simp

end
